theory Spec2Isabelle
  imports Main
begin

section \<open>Strings (ak-utils.js)\<close>

text \<open>
  JavaScript strings are modelled as \<^typ>\<open>string\<close>; \<open>null\<close> is \<open>None\<close> of an option
  type wherever the source can meet it. The two case conversions of the host are modelled
  on ASCII text, where they map the letters and leave every other character alone. On
  text with letters outside ASCII the host's conversions differ from these (they are
  Unicode-aware, and there the upper-cased forms of two strings can agree while the
  lower-cased forms differ, and the converse). The general statements below therefore
  take the conversions as they come: they say which of the two a piece of code applies,
  and use no fact about the letters beyond \<open>toLowerCase\<close> keeping a non-empty string
  non-empty; only the evaluations at examples, which are ASCII, compute them.
\<close>

definition upper_letters :: string where
  "upper_letters = ''ABCDEFGHIJKLMNOPQRSTUVWXYZ''"

definition lower_letters :: string where
  "lower_letters = ''abcdefghijklmnopqrstuvwxyz''"

definition toLowerCase_char :: "char \<Rightarrow> char" where
  "toLowerCase_char c =
     (case map_of (zip upper_letters lower_letters) c of Some d \<Rightarrow> d | None \<Rightarrow> c)"

definition toUpperCase_char :: "char \<Rightarrow> char" where
  "toUpperCase_char c =
     (case map_of (zip lower_letters upper_letters) c of Some d \<Rightarrow> d | None \<Rightarrow> c)"

definition toLowerCase :: "string \<Rightarrow> string" where
  "toLowerCase s = map toLowerCase_char s"

definition toUpperCase :: "string \<Rightarrow> string" where
  "toUpperCase s = map toUpperCase_char s"

text \<open>\<^verbatim>\<open>isNonEmptyStr(aString)\<close>: the argument is a string and is truthy.\<close>

definition isNonEmptyStr :: "string \<Rightarrow> bool" where
  "isNonEmptyStr aString = (aString \<noteq> [])"

text \<open>
  \<^verbatim>\<open>sameText(aFirst, aSecond)\<close> compares the upper-cased strings. Its two \<open>typeof\<close>
  assertions hold for every string; a call site that can pass \<open>null\<close> has a branch
  of its own in the model.
\<close>

definition sameText :: "string \<Rightarrow> string \<Rightarrow> bool" where
  "sameText aFirst aSecond = (toUpperCase aFirst = toUpperCase aSecond)"

text \<open>\<^verbatim>\<open>matchText(aString, aValues)\<close>: the loop returns at the first match.\<close>

fun matchText :: "string \<Rightarrow> string list \<Rightarrow> bool" where
  "matchText aString [] = False"
| "matchText aString (v # aValues) =
     (if sameText aString v then True else matchText aString aValues)"

text \<open>\<^verbatim>\<open>String.prototype.indexOf\<close>: the first position of the pattern, \<open>None\<close> for \<open>-1\<close>.\<close>

fun indexOf :: "string \<Rightarrow> string \<Rightarrow> nat option" where
  "indexOf [] pat = (if pat = [] then Some 0 else None)"
| "indexOf (c # cs) pat =
     (if take (length pat) (c # cs) = pat then Some 0
      else map_option Suc (indexOf cs pat))"

text \<open>\<^verbatim>\<open>spliceString(aString, aStart, aCount, aReplace)\<close> for a start that is not negative.\<close>

definition spliceString :: "string \<Rightarrow> nat \<Rightarrow> nat \<Rightarrow> string \<Rightarrow> string" where
  "spliceString aString aStart aCount aReplace =
     take aStart aString @ aReplace @ drop (aStart + aCount) aString"

text \<open>\<^verbatim>\<open>String.prototype.split(' ')\<close> on a separator of one character.\<close>

fun split :: "char \<Rightarrow> string \<Rightarrow> string list" where
  "split sep [] = [[]]"
| "split sep (c # cs) =
     (if c = sep then [] # split sep cs
      else (case split sep cs of [] \<Rightarrow> [[c]] | w # ws \<Rightarrow> (c # w) # ws))"

section \<open>Errors (ak-utils.js)\<close>

text \<open>A thrown \<^verbatim>\<open>Error\<close> is a value: its name and its message.\<close>

datatype error = Error (err_name: string) (err_message: string)

definition namedError :: "string \<Rightarrow> string \<Rightarrow> error" where
  "namedError aMessage aName =
     Error (if isNonEmptyStr aName then aName else ''Error'') aMessage"

text \<open>A computation that may throw; \<open>andThen\<close> runs the next statement unless one threw.\<close>

definition andThen :: "error + 'a \<Rightarrow> ('a \<Rightarrow> error + 'b) \<Rightarrow> error + 'b" where
  "andThen m f = (case m of Inl e \<Rightarrow> Inl e | Inr x \<Rightarrow> f x)"

definition assert :: "bool \<Rightarrow> string \<Rightarrow> error + unit" where
  "assert aCondition aErrMessage =
     (if \<not> aCondition then Inl (namedError aErrMessage ''AssertionFailure'') else Inr ())"

definition assert_default :: "bool \<Rightarrow> error + unit" where
  "assert_default aCondition = assert aCondition ''Assertion failure.''"

text \<open>
  \<^verbatim>\<open>fmt(aString, ...aValues)\<close>: while the result holds a \<open>%s\<close>, the first one is
  replaced by the next value; the search starts again from the beginning of the result,
  and a \<open>%s\<close> found when no value is left fails the assertion. Each round takes one
  value, so the loop is a recursion on the values.
\<close>

fun fmt :: "string \<Rightarrow> string list \<Rightarrow> error + string" where
  "fmt result [] =
     (case indexOf result ''%s'' of
        None \<Rightarrow> Inr result
      | Some pos \<Rightarrow> andThen (assert False ''Not enough values to format string.'') (\<lambda>_. Inr result))"
| "fmt result (v # aValues) =
     (case indexOf result ''%s'' of
        None \<Rightarrow> Inr result
      | Some pos \<Rightarrow> fmt (spliceString result pos 2 v) aValues)"

text \<open>
  \<^verbatim>\<open>assertFmt(aCondition, aErrMessage, ...aValues)\<close> is
  \<^verbatim>\<open>assert(aCondition, fmt(aErrMessage, ...aValues))\<close>: the message is formatted
  before the condition is looked at, so a failure of \<open>fmt\<close> is thrown whatever the
  condition.
\<close>

definition assertFmt :: "bool \<Rightarrow> string \<Rightarrow> string list \<Rightarrow> error + unit" where
  "assertFmt aCondition aErrMessage aValues =
     andThen (fmt aErrMessage aValues) (\<lambda>msg. assert aCondition msg)"

section \<open>Elements (the DOM as the library reads it)\<close>

text \<open>
  An element is its \<open>id\<close> (the empty string when it has none), its attributes and its
  parent element. The parent chain of a value of this type is finite, as the ancestor
  chain of a node of a document is.
\<close>

datatype element =
  Element (el_id: string) (attributes: "(string \<times> string) list") (parentElement: "element option")

definition getAttribute :: "element \<Rightarrow> string \<Rightarrow> string option" where
  "getAttribute aElement aQualifiedName = map_of (attributes aElement) aQualifiedName"

text \<open>\<^verbatim>\<open>listAttribute\<close> (and \<^verbatim>\<open>Element.prototype.getListAttribute\<close>, which calls it).\<close>

definition listAttribute :: "element \<Rightarrow> string \<Rightarrow> string list" where
  "listAttribute aElement aAttributeName =
     (case getAttribute aElement aAttributeName of
        None \<Rightarrow> []
      | Some att \<Rightarrow> if att = [] then [] else split CHR '' '' att)"

section \<open>Classes, instances and the state of the library (ak-core.js)\<close>

text \<open>
  A registered class is a subclass of one of the two family roots. It is identified by
  \<open>class_id\<close>; \<open>handlers\<close> lists the event names of its \<^verbatim>\<open>_handlers\<close> object. The
  class keeps the life-cycle methods of its family root (\<^verbatim>\<open>_validateElement\<close>,
  \<^verbatim>\<open>_applyClass\<close>, the empty \<^verbatim>\<open>_afterInitialization\<close>): what a plugin class does in an
  override of its own is outside the model. The static \<^verbatim>\<open>className\<close> is mutable and lives
  in the state, one slot for each class: \<^verbatim>\<open>register\<close> sets it on every class it stores,
  so the classes the engine reads it from have a slot of their own.
\<close>

datatype family = AKUiElement | AKComponent

datatype akclass = AKClass (class_id: nat) (family: family) (handlers: "string list")

text \<open>
  An instance is a reference (\<open>obj_ref\<close>, the allocation number of the \<^verbatim>\<open>new\<close> that
  made it), its class and its element. Reference equality of two instances is equality
  of their references.
\<close>

datatype akobject = AKObject (obj_ref: nat) (obj_class: akclass) (el: element)

text \<open>\<^verbatim>\<open>AKRegisteredObject\<close>: the instances by class name and the abort controllers.\<close>

record registered_object =
  instances :: "string \<rightharpoonup> akobject"
  controllers :: "nat list"

text \<open>
  The state: the \<^verbatim>\<open>#ITEMS\<close> of the two class registries and of the object registry, the
  \<^verbatim>\<open>className\<close> of every class, the allocation counters of instances and abort
  controllers, the abort controllers aborted so far, and the events dispatched so far
  (latest first).

  Each \<^verbatim>\<open>#ITEMS\<close> and each \<^verbatim>\<open>instances\<close> is a plain object used as a dictionary; the
  model is the map of its own properties, keyed as the source keys it. A read of a key
  that the object does not own but \<^verbatim>\<open>Object.prototype\<close> defines (\<open>constructor\<close>,
  \<open>__proto__\<close>, \<open>toString\<close>, ...) finds the inherited member in the host. For the ids of
  elements the model follows the host: the object registry answers such an id with a
  \<open>TypeError\<close> (see \<open>inherited_item\<close> below). Class names of that kind, as keys of a
  class registry or of \<^verbatim>\<open>instances\<close>, are outside the model, which finds nothing under
  a key that is not an own property.
\<close>

record ak_state =
  ui_items :: "string \<rightharpoonup> akclass"
  component_items :: "string \<rightharpoonup> akclass"
  className :: "akclass \<Rightarrow> string option"
  registry :: "string \<rightharpoonup> registered_object"
  next_object :: nat
  next_controller :: nat
  aborted :: "nat set"
  dispatched :: "(element \<times> string) list"

definition initial_state :: ak_state where
  "initial_state =
     \<lparr>ui_items = Map.empty, component_items = Map.empty, className = (\<lambda>_. None),
      registry = Map.empty, next_object = 0, next_controller = 0, aborted = {},
      dispatched = []\<rparr>"

subsection \<open>The class registries\<close>

text \<open>
  \<^verbatim>\<open>AKUiClassesRegistry\<close> and \<^verbatim>\<open>AKComponentRegistry\<close> have the same methods, line by
  line; they differ in their \<^verbatim>\<open>#ITEMS\<close> and in the name their error message shows. The
  model has each method once, with the registry as its first argument.
\<close>

datatype catalog = AKUiClassesRegistry | AKComponentRegistry

definition catalog_name :: "catalog \<Rightarrow> string" where
  "catalog_name cat =
     (case cat of AKUiClassesRegistry \<Rightarrow> ''AKUiClassesRegistry''
                | AKComponentRegistry \<Rightarrow> ''AKComponentRegistry'')"

definition items :: "catalog \<Rightarrow> ak_state \<Rightarrow> (string \<rightharpoonup> akclass)" where
  "items cat s =
     (case cat of AKUiClassesRegistry \<Rightarrow> ui_items s | AKComponentRegistry \<Rightarrow> component_items s)"

definition set_items :: "catalog \<Rightarrow> (string \<rightharpoonup> akclass) \<Rightarrow> ak_state \<Rightarrow> ak_state" where
  "set_items cat m s =
     (case cat of AKUiClassesRegistry \<Rightarrow> s\<lparr>ui_items := m\<rparr>
                | AKComponentRegistry \<Rightarrow> s\<lparr>component_items := m\<rparr>)"

text \<open>\<^verbatim>\<open>find(aClassName)\<close>\<close>

definition registry_find :: "catalog \<Rightarrow> ak_state \<Rightarrow> string \<Rightarrow> akclass option" where
  "registry_find cat s aClassName =
     (if \<not> isNonEmptyStr aClassName then None
      else items cat s (toLowerCase aClassName))"

text \<open>\<^verbatim>\<open>register(aClassName, aClass)\<close>\<close>

definition registry_register :: "catalog \<Rightarrow> string \<Rightarrow> akclass \<Rightarrow> ak_state \<Rightarrow> error + ak_state" where
  "registry_register cat aClassName aClass s =
     andThen (assert_default (isNonEmptyStr aClassName)) (\<lambda>_.
       if registry_find cat s aClassName \<noteq> None then Inr s
       else Inr ((set_items cat ((items cat s)(toLowerCase aClassName \<mapsto> aClass)) s)
                   \<lparr>className := (className s)(aClass := Some aClassName)\<rparr>))"

text \<open>\<^verbatim>\<open>unregister(aClassName)\<close>\<close>

definition registry_unregister :: "catalog \<Rightarrow> string \<Rightarrow> ak_state \<Rightarrow> ak_state" where
  "registry_unregister cat aClassName s =
     (if \<not> isNonEmptyStr aClassName then s
      else set_items cat ((items cat s)(toLowerCase aClassName := None)) s)"

text \<open>\<^verbatim>\<open>get(aClassName)\<close>: the result is returned once the assertion has passed.\<close>

definition registry_get :: "catalog \<Rightarrow> ak_state \<Rightarrow> string \<Rightarrow> error + akclass" where
  "registry_get cat s aClassName =
     (let result = registry_find cat s aClassName in
      andThen (assertFmt (result \<noteq> None)
                 (''['' @ catalog_name cat @ ''] Class \"%s\" not found.'') [aClassName])
        (\<lambda>_. Inr (the result)))"

text \<open>
  \<^verbatim>\<open>contains(aClassName)\<close> takes a name or an array of names and asks
  \<^verbatim>\<open>Object.hasOwn\<close> for each name as it was given.
\<close>

datatype names = Name string | Names "string list"

fun contains_all :: "(string \<rightharpoonup> akclass) \<Rightarrow> string list \<Rightarrow> bool" where
  "contains_all m [] = True"
| "contains_all m (n # ns) = (if m n = None then False else contains_all m ns)"

fun registry_contains :: "catalog \<Rightarrow> ak_state \<Rightarrow> names \<Rightarrow> bool" where
  "registry_contains cat s (Names aClassNames) = contains_all (items cat s) aClassNames"
| "registry_contains cat s (Name aClassName) = (items cat s aClassName \<noteq> None)"

subsection \<open>The object registry\<close>

text \<open>
  A class name used as a property key: \<^verbatim>\<open>instances[className]\<close> turns \<open>null\<close> into the
  key \<open>"null"\<close>.
\<close>

definition property_key :: "string option \<Rightarrow> string" where
  "property_key v = (case v of None \<Rightarrow> ''null'' | Some n \<Rightarrow> n)"

text \<open>
  The property names every plain object inherits from \<^verbatim>\<open>Object.prototype\<close>. For an id
  that is one of them and has no item of its own, \<^verbatim>\<open>this.#ITEMS[aId]\<close> is the inherited
  member: a function or an object, so truthy, with neither \<^verbatim>\<open>instances\<close> nor
  \<^verbatim>\<open>controllers\<close>.
\<close>

definition object_prototype_properties :: "string list" where
  "object_prototype_properties =
     [''constructor'', ''__proto__'', ''hasOwnProperty'', ''isPrototypeOf'',
      ''propertyIsEnumerable'', ''toLocaleString'', ''toString'', ''valueOf'',
      ''__defineGetter__'', ''__defineSetter__'', ''__lookupGetter__'', ''__lookupSetter__'']"

definition inherited_item :: "ak_state \<Rightarrow> string \<Rightarrow> bool" where
  "inherited_item s aId \<longleftrightarrow> registry s aId = None \<and> aId \<in> set object_prototype_properties"

text \<open>
  \<^verbatim>\<open>AKObjectRegistry.has(aId, aClass)\<close>; on an inherited member the read of
  \<^verbatim>\<open>instances[className]\<close> is a \<open>TypeError\<close> of the host.
\<close>

definition AKObjectRegistry_has :: "ak_state \<Rightarrow> string \<Rightarrow> akclass \<Rightarrow> error + bool" where
  "AKObjectRegistry_has s aId aClass =
     andThen (assert_default (isNonEmptyStr aId)) (\<lambda>_.
       let cn = className s aClass in
       (case registry s aId of
          Some item \<Rightarrow> Inr (instances item (property_key cn) \<noteq> None)
        | None \<Rightarrow>
            if inherited_item s aId
            then Inl (Error ''TypeError'' ''Cannot read properties of undefined'')
            else Inr False))"

text \<open>
  \<^verbatim>\<open>AKObjectRegistry.register(aObject, aId)\<close>. An instance is truthy, and an item of the
  registry is never empty, so \<^verbatim>\<open>isEmpty(item)\<close> holds exactly when there is no item.
  (\<^verbatim>\<open>AKObjectManager.get\<close>, its only caller, calls it for an id for which \<^verbatim>\<open>has\<close> has
  returned, so never on an inherited member.)
\<close>

definition AKObjectRegistry_register ::
  "ak_state \<Rightarrow> akobject \<Rightarrow> string \<Rightarrow> error + akobject \<times> ak_state" where
  "AKObjectRegistry_register s aObject aId =
     andThen (assert_default True) (\<lambda>_.
     andThen (assert_default (isNonEmptyStr aId)) (\<lambda>_.
       let cn = className s (obj_class aObject);
           item = (case registry s aId of
                     None \<Rightarrow> \<lparr>instances = Map.empty, controllers = []\<rparr>
                   | Some it \<Rightarrow> it)
       in andThen (assert_default (instances item (property_key cn) = None)) (\<lambda>_.
            Inr (aObject,
                 s\<lparr>registry := (registry s)
                      (aId \<mapsto> item\<lparr>instances := (instances item)(property_key cn \<mapsto> aObject)\<rparr>)\<rparr>))))"

text \<open>
  \<^verbatim>\<open>AKObjectRegistry.getAKObject(aId, aClass)\<close>; reading \<^verbatim>\<open>instances\<close> of a missing item
  is a \<open>TypeError\<close> of the host.
\<close>

definition AKObjectRegistry_getAKObject :: "ak_state \<Rightarrow> string \<Rightarrow> akclass \<Rightarrow> error + akobject" where
  "AKObjectRegistry_getAKObject s aId aClass =
     (case registry s aId of
        None \<Rightarrow> Inl (Error ''TypeError'' ''Cannot read properties of undefined'')
      | Some item \<Rightarrow>
          (let result = instances item (property_key (className s aClass)) in
           andThen (assert_default (result \<noteq> None)) (\<lambda>_. Inr (the result))))"

text \<open>
  \<^verbatim>\<open>AKObjectRegistry.addListenerController(aId)\<close>: a new abort controller is pushed on
  the item; the model returns the controller for its signal. An inherited member passes
  the assertion and has no \<^verbatim>\<open>controllers\<close> to push on.
\<close>

definition AKObjectRegistry_addListenerController :: "ak_state \<Rightarrow> string \<Rightarrow> error + nat \<times> ak_state" where
  "AKObjectRegistry_addListenerController s aId =
     andThen (assert_default (registry s aId \<noteq> None \<or> inherited_item s aId)) (\<lambda>_.
       (case registry s aId of
          None \<Rightarrow> Inl (Error ''TypeError'' ''Cannot read properties of undefined'')
        | Some item \<Rightarrow>
            let controller = next_controller s in
            Inr (controller,
                 s\<lparr>registry := (registry s)
                      (aId \<mapsto> item\<lparr>controllers := controllers item @ [controller]\<rparr>),
                   next_controller := Suc controller\<rparr>)))"

text \<open>
  \<^verbatim>\<open>AKObjectRegistry.unregister(aId)\<close>: every controller of the item is aborted, then the
  item is deleted. On an inherited member the read of \<^verbatim>\<open>item.controllers.length\<close> is a
  \<open>TypeError\<close> of the host, thrown before anything is changed: \<open>AKObjectRegistry_unregister\<close>
  is the state the call leaves, and the call ends by that throw exactly when
  \<open>inherited_item\<close> holds of the id.
\<close>

definition AKObjectRegistry_unregister :: "ak_state \<Rightarrow> string \<Rightarrow> ak_state" where
  "AKObjectRegistry_unregister s aId =
     (case registry s aId of
        None \<Rightarrow> s
      | Some item \<Rightarrow>
          s\<lparr>aborted := fold insert (controllers item) (aborted s),
            registry := (registry s)(aId := None)\<rparr>)"

text \<open>
  The instance the object registry holds for an id and a class: the entry
  \<^verbatim>\<open>#ITEMS[aId].instances[aClass.className]\<close> that \<^verbatim>\<open>has\<close> tests and \<^verbatim>\<open>getAKObject\<close>
  returns.
\<close>

definition lookup_instance :: "ak_state \<Rightarrow> string \<Rightarrow> akclass \<Rightarrow> akobject option" where
  "lookup_instance s i c =
     (case registry s i of None \<Rightarrow> None
      | Some item \<Rightarrow> instances item (property_key (className s c)))"

subsection \<open>The life cycle of an instance\<close>

text \<open>
  \<^verbatim>\<open>AKAssert\<close> is \<^verbatim>\<open>AKObjectAssert\<close> bound to the class \<^verbatim>\<open>AKObject\<close> in its static
  initialiser; every subclass inherits that bound function, and the \<^verbatim>\<open>className\<close> of
  \<^verbatim>\<open>AKObject\<close> itself is \<open>null\<close>.
\<close>

definition AKAssert :: "bool \<Rightarrow> error + unit" where
  "AKAssert aCondition = assertFmt aCondition (''[%s] - '' @ ''Assertion failure.'') [''null'']"

definition truthy :: "string option \<Rightarrow> bool" where
  "truthy v = (case v of None \<Rightarrow> False | Some n \<Rightarrow> n \<noteq> [])"

text \<open>
  \<^verbatim>\<open>_validateElement(aElement)\<close>: the checks of \<^verbatim>\<open>AKObject\<close>, then those of the family
  root. \<^verbatim>\<open>sameText\<close> asserts that both of its arguments are strings, which fails with
  the default message on \<open>null\<close>: on a class name that is \<open>null\<close> (at the first value of
  the list, if there is one), and on a missing \<open>ak-component-class\<close> attribute.
\<close>

definition validateElement :: "ak_state \<Rightarrow> akclass \<Rightarrow> element \<Rightarrow> error + unit" where
  "validateElement s aClass aElement =
     andThen (AKAssert True) (\<lambda>_.
     andThen (AKAssert (el_id aElement \<noteq> [])) (\<lambda>_.
       (case family aClass of
          AKUiElement \<Rightarrow>
            (case className s aClass of
               None \<Rightarrow>
                 if listAttribute aElement ''ak-ui-classes'' = [] then AKAssert False
                 else assert_default False
             | Some cn \<Rightarrow> AKAssert (matchText cn (listAttribute aElement ''ak-ui-classes'')))
        | AKComponent \<Rightarrow>
            (case (className s aClass, getAttribute aElement ''ak-component-class'') of
               (Some cn, Some a) \<Rightarrow> AKAssert (sameText cn a)
             | _ \<Rightarrow> assert_default False))))"

text \<open>
  \<^verbatim>\<open>new akClass(aElement)\<close>: the constructor asserts that the class has a name,
  validates the element and binds it. The instance takes the next reference.
\<close>

definition new :: "ak_state \<Rightarrow> akclass \<Rightarrow> element \<Rightarrow> error + akobject \<times> ak_state" where
  "new s aClass aElement =
     andThen (AKAssert (truthy (className s aClass))) (\<lambda>_.
     andThen (validateElement s aClass aElement) (\<lambda>_.
       Inr (AKObject (next_object s) aClass aElement, s\<lparr>next_object := Suc (next_object s)\<rparr>)))"

text \<open>\<^verbatim>\<open>AKObjectManager.listenerAdded(aElement)\<close>\<close>

definition AKObjectManager_listenerAdded :: "ak_state \<Rightarrow> element \<Rightarrow> error + nat \<times> ak_state" where
  "AKObjectManager_listenerAdded s aElement =
     AKObjectRegistry_addListenerController s (toLowerCase (el_id aElement))"

text \<open>
  \<^verbatim>\<open>_applyClass(aElement)\<close> of \<^verbatim>\<open>AKUiElement\<close> adds one listener for every handler, each
  with the signal of a controller of its own. (It also edits the \<open>classList\<close> of the
  element, which nothing in the registries reads; the model leaves it out.)
\<close>

fun applyClass_handlers :: "ak_state \<Rightarrow> element \<Rightarrow> string list \<Rightarrow> error + ak_state" where
  "applyClass_handlers s aElement [] = Inr s"
| "applyClass_handlers s aElement (aEventName # rest) =
     andThen (AKObjectManager_listenerAdded s aElement) (\<lambda>(signal, s').
       applyClass_handlers s' aElement rest)"

text \<open>
  \<^verbatim>\<open>init()\<close>: \<^verbatim>\<open>_applyClass\<close>, then \<^verbatim>\<open>_afterInitialization\<close> (which does nothing), and
  the instance is returned. \<^verbatim>\<open>AKComponent\<close> keeps the empty \<^verbatim>\<open>_applyClass\<close> of
  \<^verbatim>\<open>AKObject\<close>.
\<close>

definition init :: "ak_state \<Rightarrow> akobject \<Rightarrow> error + akobject \<times> ak_state" where
  "init s aObject =
     (case family (obj_class aObject) of
        AKUiElement \<Rightarrow>
          andThen (applyClass_handlers s (el aObject) (handlers (obj_class aObject)))
            (\<lambda>s'. Inr (aObject, s'))
      | AKComponent \<Rightarrow> Inr (aObject, s))"

subsection \<open>The object manager\<close>

text \<open>\<^verbatim>\<open>aElement.getAttribute('ak-component-class') ?? ''\<close>\<close>

definition component_class_or_empty :: "element \<Rightarrow> string" where
  "component_class_or_empty aElement =
     (case getAttribute aElement ''ak-component-class'' of None \<Rightarrow> [] | Some a \<Rightarrow> a)"

text \<open>
  The first half of \<^verbatim>\<open>AKObjectManager.get(aElement, aClassName)\<close>: the class the name
  stands for on this element. The two tests are two \<open>if\<close> statements in a row, each
  assigning \<^verbatim>\<open>akClass\<close>.
\<close>

definition get_akClass :: "ak_state \<Rightarrow> element \<Rightarrow> string \<Rightarrow> error + akclass" where
  "get_akClass s aElement aClassName =
     andThen
       (if sameText aClassName (component_class_or_empty aElement)
        then andThen (registry_get AKComponentRegistry s aClassName) (\<lambda>c. Inr (Some c))
        else Inr None) (\<lambda>akClass1.
     andThen
       (if matchText aClassName (listAttribute aElement ''ak-ui-classes'')
        then andThen (registry_get AKUiClassesRegistry s aClassName) (\<lambda>c. Inr (Some c))
        else Inr akClass1) (\<lambda>akClass.
     (case akClass of
        None \<Rightarrow>
          andThen (fmt ''Invalid AKObject class %s for element %s.'' [aClassName, el_id aElement])
            (\<lambda>msg. Inl (namedError msg ''AKInvalidTypecast''))
      | Some c \<Rightarrow> Inr c)))"

text \<open>\<^verbatim>\<open>AKObjectManager.get(aElement, aClassName)\<close>\<close>

definition AKObjectManager_get :: "ak_state \<Rightarrow> element \<Rightarrow> string \<Rightarrow> error + akobject \<times> ak_state" where
  "AKObjectManager_get s aElement aClassName =
     andThen (assert_default True) (\<lambda>_.
     andThen (assert_default (isNonEmptyStr (el_id aElement))) (\<lambda>_.
     andThen (assert_default (isNonEmptyStr aClassName)) (\<lambda>_.
     andThen (get_akClass s aElement aClassName) (\<lambda>akClass.
       let id = toLowerCase (el_id aElement) in
       andThen (AKObjectRegistry_has s id akClass) (\<lambda>found.
         if found then andThen (AKObjectRegistry_getAKObject s id akClass) (\<lambda>obj. Inr (obj, s))
         else andThen (new s akClass aElement) (\<lambda>(obj, s1).
              andThen (AKObjectRegistry_register s1 obj id) (\<lambda>(obj', s2).
                init s2 obj')))))))"

text \<open>\<^verbatim>\<open>AKObjectManager.delete(aElement)\<close>\<close>

definition AKObjectManager_delete :: "ak_state \<Rightarrow> element \<Rightarrow> ak_state" where
  "AKObjectManager_delete s aElement = AKObjectRegistry_unregister s (toLowerCase (el_id aElement))"

subsection \<open>The family roots: \<open>is\<close> and \<open>parent\<close>\<close>








section \<open>The teardown (the mutation observer)\<close>

text \<open>
  A removed node is an element or a node of another type; a mutation record has its type
  and its removed nodes, as the host's observer delivers them: the record of a removal
  lists the node that was taken out of its parent, and not the descendants that left the
  document inside it. \<^verbatim>\<open>dispatchEvent\<close> is recorded in the state; what the listeners of
  the event do is outside the model.
\<close>

datatype node = ElementNode element | TextNode string | CommentNode string

record mutation =
  mutation_type :: string
  removedNodes :: "node list"

definition dispatchEvent :: "ak_state \<Rightarrow> element \<Rightarrow> string \<Rightarrow> ak_state" where
  "dispatchEvent s aElement aEvent = s\<lparr>dispatched := (aElement, aEvent) # dispatched s\<rparr>"

text \<open>
  The callback of \<^verbatim>\<open>removedNodes.forEach\<close>: the state it leaves, and whether it ends by
  the \<open>TypeError\<close> of \<^verbatim>\<open>unregister\<close> on an inherited member.
\<close>

definition destroy_node :: "ak_state \<Rightarrow> node \<Rightarrow> ak_state" where
  "destroy_node s aNode =
     (case aNode of
        ElementNode e \<Rightarrow> AKObjectManager_delete (dispatchEvent s e ''destroy'') e
      | _ \<Rightarrow> s)"

definition destroy_node_throws :: "ak_state \<Rightarrow> node \<Rightarrow> bool" where
  "destroy_node_throws s aNode =
     (case aNode of
        ElementNode e \<Rightarrow> inherited_item (dispatchEvent s e ''destroy'') (toLowerCase (el_id e))
      | _ \<Rightarrow> False)"

text \<open>
  The \<open>forEach\<close> itself. Nothing in the callback chain catches: a throw ends the
  \<open>forEach\<close> and the whole of \<^verbatim>\<open>observeDestroy\<close>, leaving the rest of the record and
  of the batch unprocessed. The result is the error thrown, if any, and the state left.
\<close>

fun destroy_nodes :: "ak_state \<Rightarrow> node list \<Rightarrow> error option \<times> ak_state" where
  "destroy_nodes s [] = (None, s)"
| "destroy_nodes s (aNode # rest) =
     (if destroy_node_throws s aNode
      then (Some (Error ''TypeError'' ''Cannot read properties of undefined''), destroy_node s aNode)
      else destroy_nodes (destroy_node s aNode) rest)"

text \<open>\<^verbatim>\<open>observeDestroy(aMutationList, aObserver)\<close>\<close>

fun observeDestroy :: "ak_state \<Rightarrow> mutation list \<Rightarrow> error option \<times> ak_state" where
  "observeDestroy s [] = (None, s)"
| "observeDestroy s (m # aMutationList) =
     (if mutation_type m = ''childList''
      then (case destroy_nodes s (removedNodes m) of
              (Some err, s1) \<Rightarrow> (Some err, s1)
            | (None, s1) \<Rightarrow> observeDestroy s1 aMutationList)
      else observeDestroy s aMutationList)"

section \<open>Notions the statements use\<close>

text \<open>
  A state and a later state of the teardown: events and aborted controllers only grow, an
  item of the object registry is as it was or is gone with all its controllers aborted,
  and nothing else has changed.
\<close>

definition later :: "ak_state \<Rightarrow> ak_state \<Rightarrow> bool" where
  "later s s' \<longleftrightarrow>
     set (dispatched s) \<subseteq> set (dispatched s') \<and> aborted s \<subseteq> aborted s'
     \<and> (\<forall>k. registry s' k = registry s k
              \<or> (registry s' k = None
                  \<and> (\<forall>item. registry s k = Some item \<longrightarrow> set (controllers item) \<subseteq> aborted s')))
     \<and> next_object s' = next_object s \<and> ui_items s' = ui_items s
     \<and> component_items s' = component_items s \<and> className s' = className s"

text \<open>
  A later state in which resolving on the element of an id is undisturbed: the class
  registries and the class names are as they were, and the item of the id still holds
  every instance it held. (A registration that takes effect, an \<^verbatim>\<open>unregister\<close> of a
  class and the teardown of the element disturb it; resolving and adding listeners, on
  any element, do not.)
\<close>

definition undisturbed :: "ak_state \<Rightarrow> ak_state \<Rightarrow> string \<Rightarrow> bool" where
  "undisturbed s t i \<longleftrightarrow>
     ui_items t = ui_items s \<and> component_items t = component_items s
     \<and> className t = className s
     \<and> (\<forall>item. registry s i = Some item \<longrightarrow>
           (\<exists>item'. registry t i = Some item'
                \<and> (\<forall>k obj. instances item k = Some obj \<longrightarrow> instances item' k = Some obj)))"


text \<open>
  Every instance held by the object registry has a reference below the allocation
  counter, that is, it was made by an earlier \<^verbatim>\<open>new\<close>.
\<close>

definition refs_allocated :: "ak_state \<Rightarrow> bool" where
  "refs_allocated s \<longleftrightarrow>
     (\<forall>i item k obj. registry s i = Some item \<longrightarrow> instances item k = Some obj \<longrightarrow>
        obj_ref obj < next_object s)"

text \<open>What the teardown has done to an element of a record, seen from any later state.\<close>

definition torn_down :: "ak_state \<Rightarrow> element \<Rightarrow> ak_state \<Rightarrow> bool" where
  "torn_down s e s' \<longleftrightarrow>
     (e, ''destroy'') \<in> set (dispatched s')
     \<and> registry s' (toLowerCase (el_id e)) = None
     \<and> (\<forall>item. registry s (toLowerCase (el_id e)) = Some item \<longrightarrow>
           set (controllers item) \<subseteq> aborted s')"

section \<open>The specification's wording, for comparison\<close>

text \<open>
  The resolution order as the specification words it: the exclusive-interaction attribute
  first, and only otherwise (\<open>else if\<close>) the visual-behaviour list.
\<close>

definition resolution_order_spec :: "ak_state \<Rightarrow> element \<Rightarrow> string \<Rightarrow> error + akclass" where
  "resolution_order_spec s aElement aClassName =
     (if sameText aClassName (component_class_or_empty aElement)
      then registry_get AKComponentRegistry s aClassName
      else if matchText aClassName (listAttribute aElement ''ak-ui-classes'')
      then registry_get AKUiClassesRegistry s aClassName
      else andThen (fmt ''Invalid AKObject class %s for element %s.'' [aClassName, el_id aElement])
             (\<lambda>msg. Inl (namedError msg ''AKInvalidTypecast'')))"

text \<open>
  The parent query as the specification words it. The ancestor chain runs outward from
  the immediate parent. The bindings an element declares for a family are the tokens of
  its \<open>ak-ui-classes\<close> list for the visual-behaviour family and the value of its
  \<open>ak-component-class\<close> attribute, if it has one, for the exclusive-interaction family;
  the family's catalog is the registry of its classes. An element is typed under a family
  when one of its declared bindings resolves, in the family's catalog, to a registered
  type of that family; its type is the first such type in the order of the bindings. The
  query's ancestor is the first element of the chain that is typed.
\<close>

fun ancestor_chain :: "element option \<Rightarrow> element list" where
  "ancestor_chain None = []"
| "ancestor_chain (Some (Element i atts up)) = Element i atts up # ancestor_chain up"

definition family_catalog :: "family \<Rightarrow> catalog" where
  "family_catalog f = (case f of AKUiElement \<Rightarrow> AKUiClassesRegistry | AKComponent \<Rightarrow> AKComponentRegistry)"

definition declared_bindings :: "family \<Rightarrow> element \<Rightarrow> string list" where
  "declared_bindings f a =
     (case f of
        AKUiElement \<Rightarrow> listAttribute a ''ak-ui-classes''
      | AKComponent \<Rightarrow> (case getAttribute a ''ak-component-class'' of None \<Rightarrow> [] | Some n \<Rightarrow> [n]))"

definition registered_types :: "family \<Rightarrow> ak_state \<Rightarrow> element \<Rightarrow> akclass list" where
  "registered_types f s a =
     filter (\<lambda>t. family t = f)
       (List.map_filter (registry_find (family_catalog f) s) (declared_bindings f a))"

definition typed_under :: "family \<Rightarrow> ak_state \<Rightarrow> element \<Rightarrow> akclass option" where
  "typed_under f s a = (case registered_types f s a of [] \<Rightarrow> None | t # _ \<Rightarrow> Some t)"


section \<open>Example data\<close>

text \<open>
  Two visual-behaviour classes with two and one event handlers, a component class, and
  the state after \<^verbatim>\<open>register('Panel', Panel)\<close> and \<^verbatim>\<open>register('Tab', Tab)\<close> on the
  registry of visual-behaviour classes.
\<close>

definition Panel :: akclass where
  "Panel = AKClass 0 AKUiElement [''click'', ''keydown'']"

definition Tab :: akclass where
  "Tab = AKClass 1 AKUiElement [''click'']"

definition PanelComponent :: akclass where
  "PanelComponent = AKClass 2 AKComponent []"

definition registered_state :: ak_state where
  "registered_state =
     \<lparr>ui_items = [''panel'' \<mapsto> Panel, ''tab'' \<mapsto> Tab], component_items = Map.empty,
      className = (\<lambda>_. None)(Panel := Some ''Panel'', Tab := Some ''Tab''),
      registry = Map.empty, next_object = 0, next_controller = 0, aborted = {},
      dispatched = []\<rparr>"

text \<open>An element that declares both classes, and the state after both were resolved on it.\<close>

definition n1 :: element where
  "n1 = Element ''N1'' [(''ak-ui-classes'', ''Panel Tab'')] None"

definition attached_state :: ak_state where
  "attached_state =
     registered_state
       \<lparr>registry :=
          [''n1'' \<mapsto> \<lparr>instances = [''Panel'' \<mapsto> AKObject 0 Panel n1, ''Tab'' \<mapsto> AKObject 1 Tab n1],
                      controllers = [0, 1, 2]\<rparr>],
        next_object := 2, next_controller := 3\<rparr>"

text \<open>
  The name \<open>Panel\<close> registered in both registries, and an element that declares it in both
  attributes.
\<close>

definition both_state :: ak_state where
  "both_state =
     registered_state
       \<lparr>component_items := [''panel'' \<mapsto> PanelComponent],
        className := (className registered_state)(PanelComponent := Some ''Panel'')\<rparr>"

definition n2 :: element where
  "n2 = Element ''n2'' [(''ak-component-class'', ''Panel''), (''ak-ui-classes'', ''Panel'')] None"

text \<open>A (typed \<open>Panel\<close>) contains B (untyped) contains C (typed \<open>Tab\<close>).\<close>

definition node_A :: element where
  "node_A = Element ''a'' [(''ak-ui-classes'', ''Panel'')] None"

definition node_B :: element where
  "node_B = Element ''b'' [] (Some node_A)"

definition node_C :: element where
  "node_C = Element ''c'' [(''ak-ui-classes'', ''Tab'')] (Some node_B)"

text \<open>
  The state after \<open>get\<close> of \<open>Panel\<close> on A and of \<open>Tab\<close> on C, which is what
  \<^verbatim>\<open>enhanceElement\<close> of A does; and the state after the teardown of the record of the
  removal of A.
\<close>

definition tree_state :: ak_state where
  "tree_state =
     registered_state
       \<lparr>registry :=
          [''a'' \<mapsto> \<lparr>instances = [''Panel'' \<mapsto> AKObject 0 Panel node_A], controllers = [0, 1]\<rparr>,
           ''c'' \<mapsto> \<lparr>instances = [''Tab'' \<mapsto> AKObject 1 Tab node_C], controllers = [2]\<rparr>],
        next_object := 2, next_controller := 3\<rparr>"

definition removed_state :: ak_state where
  "removed_state =
     tree_state
       \<lparr>registry :=
          [''c'' \<mapsto> \<lparr>instances = [''Tab'' \<mapsto> AKObject 1 Tab node_C], controllers = [2]\<rparr>],
        aborted := {0, 1}, dispatched := [(node_A, ''destroy'')]\<rparr>"





text \<open>
  O (component \<open>Panel\<close>) contains M (visual-behaviour \<open>Panel\<close>) contains I (component
  \<open>panel\<close>); the state after \<open>get\<close> of \<open>panel\<close> on I, and the state after \<open>get\<close> of
  \<open>Panel\<close> on O then.
\<close>

definition node_O :: element where
  "node_O = Element ''o'' [(''ak-component-class'', ''Panel'')] None"

definition node_M :: element where
  "node_M = Element ''m'' [(''ak-ui-classes'', ''Panel'')] (Some node_O)"

definition node_I :: element where
  "node_I = Element ''i'' [(''ak-component-class'', ''panel'')] (Some node_M)"

definition inner_state :: ak_state where
  "inner_state =
     both_state
       \<lparr>registry :=
          [''i'' \<mapsto> \<lparr>instances = [''Panel'' \<mapsto> AKObject 0 PanelComponent node_I], controllers = []\<rparr>],
        next_object := 1\<rparr>"


text \<open>
  A component class filed in the registry of visual-behaviour classes, as \<open>Odd\<close>; P
  declares \<open>Odd\<close> in its \<open>ak-ui-classes\<close> list and contains Q (typed \<open>Tab\<close>).
\<close>

definition odd_state :: ak_state where
  "odd_state =
     registered_state
       \<lparr>ui_items := [''panel'' \<mapsto> Panel, ''tab'' \<mapsto> Tab, ''odd'' \<mapsto> PanelComponent],
        className := (className registered_state)(PanelComponent := Some ''Odd'')\<rparr>"



section \<open>Facts about strings\<close>

lemmas case_conversion_defs =
  toLowerCase_def toLowerCase_char_def toUpperCase_def toUpperCase_char_def
  upper_letters_def lower_letters_def

lemma toLowerCase_Nil_iff: "toLowerCase a = [] \<longleftrightarrow> a = []"
  by (simp add: toLowerCase_def)

section \<open>Facts about the class registries\<close>

lemma items_set_items: "items cat (set_items cat' m s) = (if cat = cat' then m else items cat s)"
  by (cases cat; cases cat') (simp_all add: items_def set_items_def)

section \<open>Facts about \<open>fmt\<close>\<close>

lemma indexOf_Nil_pct: "indexOf [] ''%s'' = None"
  by simp

lemma indexOf_Cons_pct:
  "indexOf (c # cs) ''%s'' =
     (if c = CHR ''%'' \<and> (case cs of [] \<Rightarrow> False | d # _ \<Rightarrow> d = CHR ''s'') then Some 0
      else map_option Suc (indexOf cs ''%s''))"
  by (cases cs) auto

lemma indexOf_skip_prefix:
  "CHR ''%'' \<notin> set pre \<Longrightarrow>
   indexOf (pre @ rest) ''%s'' = map_option (\<lambda>i. length pre + i) (indexOf rest ''%s'')"
proof (induction pre)
  case Nil
  then show ?case by (simp add: option.map_ident)
next
  case (Cons a pre)
  then show ?case
    by (auto simp: indexOf_Cons_pct option.map_comp comp_def simp del: indexOf.simps)
qed

lemma starts_append:
  "(case v @ post of [] \<Rightarrow> False | d # _ \<Rightarrow> d = c) =
     (case v of [] \<Rightarrow> (case post of [] \<Rightarrow> False | d # _ \<Rightarrow> d = c) | d # _ \<Rightarrow> d = c)"
  by (cases v) simp_all

lemma indexOf_skip_value:
  "indexOf v ''%s'' = None \<Longrightarrow> (case post of [] \<Rightarrow> True | d # _ \<Rightarrow> d \<noteq> CHR ''s'') \<Longrightarrow>
   indexOf (v @ post) ''%s'' = map_option (\<lambda>i. length v + i) (indexOf post ''%s'')"
proof (induction v)
  case Nil
  then show ?case by (simp add: option.map_ident)
next
  case (Cons a v)
  from Cons.prems(1) have no: "\<not> (a = CHR ''%'' \<and> (case v of [] \<Rightarrow> False | d # _ \<Rightarrow> d = CHR ''s''))"
    and rest: "indexOf v ''%s'' = None"
    by (simp_all only: indexOf_Cons_pct split: if_splits) simp_all
  from Cons.prems(2) have post: "\<not> (case post of [] \<Rightarrow> False | d # _ \<Rightarrow> d = CHR ''s'')"
    by (cases post) simp_all
  have "\<not> (a = CHR ''%'' \<and> (case v @ post of [] \<Rightarrow> False | d # _ \<Rightarrow> d = CHR ''s''))"
    using no post by (cases v) simp_all
  then have "indexOf (a # (v @ post)) ''%s'' = map_option Suc (indexOf (v @ post) ''%s'')"
    by (simp only: indexOf_Cons_pct if_False)
  also have "\<dots> = map_option Suc (map_option (\<lambda>i. length v + i) (indexOf post ''%s''))"
    using Cons.IH [OF rest Cons.prems(2)] by (simp only:)
  also have "\<dots> = map_option (\<lambda>i. length (a # v) + i) (indexOf post ''%s'')"
    by (simp add: option.map_comp comp_def del: indexOf.simps)
  finally show ?case by (simp only: append_Cons)
qed

lemma indexOf_value_found:
  "indexOf v ''%s'' = Some i \<Longrightarrow> indexOf (v @ post) ''%s'' = Some i"
proof (induction v arbitrary: i)
  case Nil
  then show ?case by simp
next
  case (Cons a v)
  show ?case
  proof (cases "a = CHR ''%'' \<and> (case v of [] \<Rightarrow> False | d # _ \<Rightarrow> d = CHR ''s'')")
    case True
    then have "i = 0" using Cons.prems by (simp only: indexOf_Cons_pct if_True) simp
    moreover from True have "a = CHR ''%'' \<and> (case v @ post of [] \<Rightarrow> False | d # _ \<Rightarrow> d = CHR ''s'')"
      by (cases v) simp_all
    then have "indexOf (a # (v @ post)) ''%s'' = Some 0"
      by (simp add: indexOf_Cons_pct del: indexOf.simps)
    ultimately show ?thesis by (simp only: append_Cons)
  next
    case False
    then have "map_option Suc (indexOf v ''%s'') = Some i"
      using Cons.prems by (simp only: indexOf_Cons_pct if_False)
    then obtain j where j: "indexOf v ''%s'' = Some j" "i = Suc j"
      by (cases "indexOf v ''%s''") auto
    then have v_ne: "v \<noteq> []" by auto
    from False v_ne have "\<not> (a = CHR ''%'' \<and> (case v @ post of [] \<Rightarrow> False | d # _ \<Rightarrow> d = CHR ''s''))"
      by (cases v) simp_all
    then have "indexOf (a # (v @ post)) ''%s'' = map_option Suc (indexOf (v @ post) ''%s'')"
      by (simp only: indexOf_Cons_pct if_False)
    also have "\<dots> = Some i" using Cons.IH [OF j(1)] j(2) by simp
    finally show ?thesis by (simp only: append_Cons)
  qed
qed

lemma fmt_one_value:
  assumes "CHR ''%'' \<notin> set pre" "CHR ''%'' \<notin> set post"
    and "(case post of [] \<Rightarrow> True | d # _ \<Rightarrow> d \<noteq> CHR ''s'')"
  shows "fmt (pre @ ''%s'' @ post) [v] =
           (if indexOf v ''%s'' = None then Inr (pre @ v @ post)
            else Inl (Error ''AssertionFailure'' ''Not enough values to format string.''))"
proof -
  have p0: "indexOf (''%s'' @ post) ''%s'' = Some 0" by simp
  have pos: "indexOf (pre @ ''%s'' @ post) ''%s'' = Some (length pre)"
    using indexOf_skip_prefix [OF assms(1), of "''%s'' @ post"] p0 by simp
  have spl: "spliceString (pre @ ''%s'' @ post) (length pre) 2 v = pre @ v @ post"
    by (simp add: spliceString_def)
  have post_none: "indexOf post ''%s'' = None"
    using indexOf_skip_prefix [OF assms(2), of "[]"] by simp
  show ?thesis
  proof (cases "indexOf v ''%s''")
    case None
    then have "indexOf (pre @ v @ post) ''%s'' = None"
      using indexOf_skip_prefix [OF assms(1), of "v @ post"] indexOf_skip_value [OF None assms(3)]
        post_none by simp
    then show ?thesis using pos spl None by simp
  next
    case (Some i)
    then have "indexOf (pre @ v @ post) ''%s'' = Some (length pre + i)"
      using indexOf_skip_prefix [OF assms(1), of "v @ post"] indexOf_value_found [OF Some] by simp
    then show ?thesis using pos spl Some
      by (simp add: andThen_def assert_def namedError_def isNonEmptyStr_def)
  qed
qed

lemma fmt_not_found_template:
  "fmt (''['' @ catalog_name cat @ ''] Class \"%s\" not found.'') [name] =
     (if indexOf name ''%s'' = None
      then Inr (''['' @ catalog_name cat @ ''] Class \"'' @ name @ ''\" not found.'')
      else Inl (Error ''AssertionFailure'' ''Not enough values to format string.''))"
  using fmt_one_value [of "''['' @ catalog_name cat @ ''] Class \"''" "''\" not found.''" name]
  by (cases cat) (simp_all add: catalog_name_def del: fmt.simps indexOf.simps)

lemma fmt_two_values:
  assumes "CHR ''%'' \<notin> set pre" "CHR ''%'' \<notin> set mid" "CHR ''%'' \<notin> set post"
    and "(case mid of [] \<Rightarrow> False | d # _ \<Rightarrow> d \<noteq> CHR ''s'')"
    and "(case post of [] \<Rightarrow> True | d # _ \<Rightarrow> d \<noteq> CHR ''s'')"
    and "indexOf n ''%s'' = None" "indexOf i ''%s'' = None"
  shows "fmt (pre @ ''%s'' @ mid @ ''%s'' @ post) [n, i] = Inr (pre @ n @ mid @ i @ post)"
proof -
  have p0: "\<And>r. indexOf (''%s'' @ r) ''%s'' = Some 0" by simp
  have pos1: "indexOf (pre @ ''%s'' @ mid @ ''%s'' @ post) ''%s'' = Some (length pre)"
    using indexOf_skip_prefix [OF assms(1), of "''%s'' @ mid @ ''%s'' @ post"] p0 by simp
  have spl1: "spliceString (pre @ ''%s'' @ mid @ ''%s'' @ post) (length pre) 2 n
                = pre @ n @ mid @ ''%s'' @ post"
    by (simp add: spliceString_def)
  have "indexOf (mid @ ''%s'' @ post) ''%s'' = Some (length mid)"
    using indexOf_skip_prefix [OF assms(2), of "''%s'' @ post"] p0 by simp
  then have "indexOf (n @ mid @ ''%s'' @ post) ''%s'' = Some (length n + length mid)"
    using indexOf_skip_value [OF assms(6), of "mid @ ''%s'' @ post"] assms(4)
    by (cases mid) simp_all
  then have pos2: "indexOf (pre @ n @ mid @ ''%s'' @ post) ''%s''
                     = Some (length pre + (length n + length mid))"
    using indexOf_skip_prefix [OF assms(1), of "n @ mid @ ''%s'' @ post"] by simp
  have spl2: "spliceString (pre @ n @ mid @ ''%s'' @ post) (length pre + (length n + length mid)) 2 i
                = pre @ n @ mid @ i @ post"
    by (simp add: spliceString_def)
  have "indexOf post ''%s'' = None"
    using indexOf_skip_prefix [OF assms(3), of "[]"] by simp
  then have "indexOf (i @ post) ''%s'' = None"
    using indexOf_skip_value [OF assms(7) assms(5)] by simp
  then have "indexOf (mid @ i @ post) ''%s'' = None"
    using indexOf_skip_prefix [OF assms(2), of "i @ post"] by simp
  then have "indexOf (n @ mid @ i @ post) ''%s'' = None"
    using indexOf_skip_value [OF assms(6), of "mid @ i @ post"] assms(4)
    by (cases mid) simp_all
  then have pos3: "indexOf (pre @ n @ mid @ i @ post) ''%s'' = None"
    using indexOf_skip_prefix [OF assms(1), of "n @ mid @ i @ post"] by simp
  show ?thesis
    by (simp only: fmt.simps pos1 spl1 pos2 spl2 pos3 option.case)
qed

lemma fmt_typecast:
  assumes "indexOf n ''%s'' = None" "indexOf i ''%s'' = None"
  shows "fmt ''Invalid AKObject class %s for element %s.'' [n, i] =
           Inr (''Invalid AKObject class '' @ n @ '' for element '' @ i @ ''.'')"
  using fmt_two_values [of "''Invalid AKObject class ''" "'' for element ''" "''.''" n i] assms
  by (simp del: fmt.simps indexOf.simps)

section \<open>Facts about the object manager\<close>

lemma andThen_simps [simp]:
  "andThen (Inl e) f = Inl e"
  "andThen (Inr x) f = f x"
  by (simp_all add: andThen_def)

lemma andThen_eq_Inr_iff:
  "andThen m f = Inr y \<longleftrightarrow> (\<exists>x. m = Inr x \<and> f x = Inr y)"
  by (cases m) simp_all

lemma assert_default_eq:
  "assert_default b = (if b then Inr () else Inl (Error ''AssertionFailure'' ''Assertion failure.''))"
  by (simp add: assert_default_def assert_def namedError_def isNonEmptyStr_def)

lemma AKAssert_eq:
  "AKAssert b = (if b then Inr () else Inl (Error ''AssertionFailure'' ''[null] - Assertion failure.''))"
proof -
  have "fmt (''[%s] - '' @ ''Assertion failure.'') [''null''] = Inr ''[null] - Assertion failure.''"
    by (simp add: spliceString_def)
  then show ?thesis
    by (simp add: AKAssert_def assertFmt_def assert_def namedError_def isNonEmptyStr_def
        del: fmt.simps)
qed

lemma registry_get_eq:
  "registry_get cat s n =
     (if indexOf n ''%s'' \<noteq> None
      then Inl (Error ''AssertionFailure'' ''Not enough values to format string.'')
      else (case registry_find cat s n of
              None \<Rightarrow> Inl (Error ''AssertionFailure''
                              (''['' @ catalog_name cat @ ''] Class \"'' @ n @ ''\" not found.''))
            | Some c \<Rightarrow> Inr c))"
  unfolding registry_get_def Let_def assertFmt_def fmt_not_found_template
  by (cases "indexOf n ''%s''"; cases "registry_find cat s n")
     (simp_all add: assert_def namedError_def isNonEmptyStr_def del: indexOf.simps)

lemma registry_find_cong:
  "items cat s' = items cat s \<Longrightarrow> registry_find cat s' n = registry_find cat s n"
  by (simp add: registry_find_def)

lemma registry_get_cong:
  "items cat s' = items cat s \<Longrightarrow> registry_get cat s' n = registry_get cat s n"
  by (simp add: registry_get_eq registry_find_cong [of cat s' s] del: indexOf.simps)

lemma get_akClass_cong:
  assumes "ui_items s' = ui_items s" "component_items s' = component_items s"
  shows "get_akClass s' e n = get_akClass s e n"
proof -
  have "\<And>cat. items cat s' = items cat s"
    using assms by (simp add: items_def split: catalog.splits)
  then show ?thesis
    by (simp add: get_akClass_def registry_get_cong [of _ s' s] del: fmt.simps)
qed

text \<open>The handlers loop only touches the controllers of the element's item.\<close>

lemma addListenerController_frame:
  assumes "AKObjectRegistry_addListenerController s i = Inr (c, s')"
  shows "ui_items s' = ui_items s \<and> component_items s' = component_items s
       \<and> className s' = className s \<and> next_object s' = next_object s
       \<and> aborted s' = aborted s \<and> dispatched s' = dispatched s
       \<and> (\<forall>k. map_option instances (registry s' k) = map_option instances (registry s k))"
  using assms
  by (auto simp: AKObjectRegistry_addListenerController_def Let_def assert_default_eq
      split: if_splits option.splits)

lemma applyClass_handlers_frame:
  assumes "applyClass_handlers s e hs = Inr s'"
  shows "ui_items s' = ui_items s \<and> component_items s' = component_items s
       \<and> className s' = className s \<and> next_object s' = next_object s
       \<and> aborted s' = aborted s \<and> dispatched s' = dispatched s
       \<and> (\<forall>k. map_option instances (registry s' k) = map_option instances (registry s k))"
  using assms
proof (induction hs arbitrary: s)
  case Nil
  then show ?case by simp
next
  case (Cons h hs)
  from Cons.prems obtain c s1 where
    a: "AKObjectRegistry_addListenerController s (toLowerCase (el_id e)) = Inr (c, s1)"
    and r: "applyClass_handlers s1 e hs = Inr s'"
    by (auto simp: andThen_eq_Inr_iff AKObjectManager_listenerAdded_def)
  from addListenerController_frame [OF a] Cons.IH [OF r] show ?case by simp
qed

lemma init_frame:
  assumes "init s obj = Inr (obj', s')"
  shows "obj' = obj \<and> ui_items s' = ui_items s \<and> component_items s' = component_items s
       \<and> className s' = className s \<and> next_object s' = next_object s
       \<and> aborted s' = aborted s \<and> dispatched s' = dispatched s
       \<and> (\<forall>k. map_option instances (registry s' k) = map_option instances (registry s k))"
proof (cases "family (obj_class obj)")
  case AKUiElement
  with assms have h: "applyClass_handlers s (el obj) (handlers (obj_class obj)) = Inr s'"
    and o: "obj' = obj"
    by (auto simp: init_def andThen_eq_Inr_iff)
  from applyClass_handlers_frame [OF h] o show ?thesis by simp
next
  case AKComponent
  with assms show ?thesis by (simp add: init_def)
qed

lemma lookup_instance_Some_item:
  "lookup_instance s i c = Some obj \<Longrightarrow> \<not> inherited_item s i"
  by (auto simp: lookup_instance_def inherited_item_def split: option.splits)

lemma AKObjectRegistry_has_eq:
  "i \<noteq> [] \<Longrightarrow>
   AKObjectRegistry_has s i c =
     (if inherited_item s i then Inl (Error ''TypeError'' ''Cannot read properties of undefined'')
      else Inr (lookup_instance s i c \<noteq> None))"
  by (simp add: AKObjectRegistry_has_def assert_default_eq isNonEmptyStr_def Let_def
      lookup_instance_def inherited_item_def split: option.splits)

lemma AKObjectRegistry_getAKObject_eq:
  "lookup_instance s i c = Some obj \<Longrightarrow> AKObjectRegistry_getAKObject s i c = Inr obj"
  by (auto simp: AKObjectRegistry_getAKObject_def assert_default_eq Let_def
      lookup_instance_def split: option.splits)

lemma AKObjectManager_get_eq:
  "AKObjectManager_get s e n =
     (if el_id e = [] \<or> n = [] then Inl (Error ''AssertionFailure'' ''Assertion failure.'')
      else (case get_akClass s e n of
              Inl err \<Rightarrow> Inl err
            | Inr c \<Rightarrow>
                (case lookup_instance s (toLowerCase (el_id e)) c of
                   Some obj \<Rightarrow> Inr (obj, s)
                 | None \<Rightarrow>
                     if inherited_item s (toLowerCase (el_id e))
                     then Inl (Error ''TypeError'' ''Cannot read properties of undefined'')
                     else
                       andThen (new s c e) (\<lambda>(obj, s1).
                       andThen (AKObjectRegistry_register s1 obj (toLowerCase (el_id e))) (\<lambda>(obj', s2).
                         init s2 obj')))))"
proof (cases "el_id e = [] \<or> n = []")
  case True
  then show ?thesis
    by (auto simp: AKObjectManager_get_def assert_default_eq isNonEmptyStr_def)
next
  case False
  then have ne: "toLowerCase (el_id e) \<noteq> []" by (simp add: toLowerCase_Nil_iff)
  show ?thesis
  proof (cases "get_akClass s e n")
    case (Inl err)
    with False show ?thesis
      by (simp add: AKObjectManager_get_def assert_default_eq isNonEmptyStr_def)
  next
    case (Inr c)
    show ?thesis
    proof (cases "lookup_instance s (toLowerCase (el_id e)) c")
      case None
      with False Inr ne show ?thesis
        by (simp add: AKObjectManager_get_def assert_default_eq isNonEmptyStr_def Let_def
            AKObjectRegistry_has_eq)
    next
      case (Some obj)
      with False Inr ne lookup_instance_Some_item [OF Some] show ?thesis
        by (simp add: AKObjectManager_get_def assert_default_eq isNonEmptyStr_def Let_def
            AKObjectRegistry_has_eq AKObjectRegistry_getAKObject_eq)
    qed
  qed
qed

lemma new_Inr:
  assumes "new s c e = Inr (obj, s1)"
  shows "obj = AKObject (next_object s) c e \<and> s1 = s\<lparr>next_object := Suc (next_object s)\<rparr>
       \<and> truthy (className s c) \<and> validateElement s c e = Inr ()"
  using assms
  by (cases "validateElement s c e")
     (auto simp: new_def AKAssert_eq split: if_splits)

lemma register_Inr:
  assumes "AKObjectRegistry_register s1 obj i = Inr (obj', s2)"
  shows "obj' = obj \<and> lookup_instance s2 i (obj_class obj) = Some obj
       \<and> ui_items s2 = ui_items s1 \<and> component_items s2 = component_items s1
       \<and> className s2 = className s1 \<and> next_object s2 = next_object s1
       \<and> aborted s2 = aborted s1 \<and> dispatched s2 = dispatched s1
       \<and> next_controller s2 = next_controller s1"
  using assms
  by (auto simp: AKObjectRegistry_register_def assert_default_eq Let_def lookup_instance_def
      split: if_splits)

lemma lookup_instance_cong:
  assumes "className s' = className s"
    and "map_option instances (registry s' i) = map_option instances (registry s i)"
  shows "lookup_instance s' i c = lookup_instance s i c"
  using assms
  by (cases "registry s' i"; cases "registry s i") (auto simp: lookup_instance_def)

text \<open>After a call of \<open>get\<close> that returned, the instance is in the registry.\<close>

lemma get_registers:
  assumes "AKObjectManager_get s e n = Inr (obj, s')"
  shows "\<exists>c. get_akClass s e n = Inr c \<and> get_akClass s' e n = Inr c
           \<and> lookup_instance s' (toLowerCase (el_id e)) c = Some obj
           \<and> el_id e \<noteq> [] \<and> n \<noteq> []
           \<and> (lookup_instance s (toLowerCase (el_id e)) c = None \<longrightarrow>
                 obj = AKObject (next_object s) c e \<and> next_object s' = Suc (next_object s))
           \<and> (lookup_instance s (toLowerCase (el_id e)) c \<noteq> None \<longrightarrow> s' = s)"
proof -
  let ?i = "toLowerCase (el_id e)"
  from assms have ne: "el_id e \<noteq> []" "n \<noteq> []"
    by (auto simp: AKObjectManager_get_eq split: if_splits)
  with assms obtain c where c: "get_akClass s e n = Inr c"
    by (auto simp: AKObjectManager_get_eq split: sum.splits)
  show ?thesis
  proof (cases "lookup_instance s ?i c")
    case (Some o1)
    with assms ne c have "obj = o1" "s' = s"
      by (auto simp: AKObjectManager_get_eq)
    with Some c ne show ?thesis by auto
  next
    case None
    with assms ne c obtain o1 s1 o2 s2 where
      n1: "new s c e = Inr (o1, s1)" and
      r1: "AKObjectRegistry_register s1 o1 ?i = Inr (o2, s2)" and
      i1: "init s2 o2 = Inr (obj, s')"
      by (auto simp: AKObjectManager_get_eq andThen_eq_Inr_iff split: if_splits)
    from new_Inr [OF n1] have o1: "o1 = AKObject (next_object s) c e"
      and s1: "s1 = s\<lparr>next_object := Suc (next_object s)\<rparr>" by simp_all
    from register_Inr [OF r1] o1 have o2: "o2 = o1"
      and l2: "lookup_instance s2 ?i c = Some o1"
      and f2: "ui_items s2 = ui_items s1" "component_items s2 = component_items s1"
        "className s2 = className s1" "next_object s2 = next_object s1" by simp_all
    from init_frame [OF i1] have o3: "obj = o2"
      and f3: "ui_items s' = ui_items s2" "component_items s' = component_items s2"
        "className s' = className s2" "next_object s' = next_object s2"
      and r3: "map_option instances (registry s' ?i) = map_option instances (registry s2 ?i)"
      by simp_all
    have l3: "lookup_instance s' ?i c = Some obj"
      using lookup_instance_cong [OF f3(3) r3, of c] l2 o2 o3 by simp
    have "get_akClass s' e n = get_akClass s e n"
      by (rule get_akClass_cong) (simp_all add: f2 f3 s1)
    with c l3 ne None o1 o2 o3 f2 f3 s1 show ?thesis by simp
  qed
qed

lemma get_found:
  assumes "el_id e \<noteq> []" "n \<noteq> []" "get_akClass s e n = Inr c"
    and "lookup_instance s (toLowerCase (el_id e)) c = Some obj"
  shows "AKObjectManager_get s e n = Inr (obj, s)"
  using assms by (simp add: AKObjectManager_get_eq)

section \<open>Facts about resolving, the parent query and the teardown\<close>

lemma fold_insert_set: "fold insert xs A = A \<union> set xs"
  by (induction xs arbitrary: A) auto

lemma AKObjectRegistry_unregister_eq:
  "AKObjectRegistry_unregister s i =
     s\<lparr>aborted := aborted s \<union> (case registry s i of None \<Rightarrow> {} | Some item \<Rightarrow> set (controllers item)),
       registry := (registry s)(i := None)\<rparr>"
  by (cases "registry s i")
     (simp_all add: AKObjectRegistry_unregister_def fold_insert_set fun_upd_idem)

text \<open>\<open>get\<close> changes neither the class registries nor the class names.\<close>

lemma get_frame:
  assumes "AKObjectManager_get s e n = Inr (obj, s')"
  shows "ui_items s' = ui_items s \<and> component_items s' = component_items s
       \<and> className s' = className s \<and> aborted s' = aborted s \<and> dispatched s' = dispatched s"
proof -
  let ?i = "toLowerCase (el_id e)"
  from assms have ne: "el_id e \<noteq> []" "n \<noteq> []"
    by (auto simp: AKObjectManager_get_eq split: if_splits)
  with assms obtain c where c: "get_akClass s e n = Inr c"
    by (auto simp: AKObjectManager_get_eq split: sum.splits)
  show ?thesis
  proof (cases "lookup_instance s ?i c")
    case (Some o1)
    with assms ne c have "s' = s" by (auto simp: AKObjectManager_get_eq)
    then show ?thesis by simp
  next
    case None
    with assms ne c obtain o1 s1 o2 s2 where
      n1: "new s c e = Inr (o1, s1)" and
      r1: "AKObjectRegistry_register s1 o1 ?i = Inr (o2, s2)" and
      i1: "init s2 o2 = Inr (obj, s')"
      by (auto simp: AKObjectManager_get_eq andThen_eq_Inr_iff split: if_splits)
    from new_Inr [OF n1] have s1: "s1 = s\<lparr>next_object := Suc (next_object s)\<rparr>" by simp
    from register_Inr [OF r1] init_frame [OF i1] s1 show ?thesis by simp
  qed
qed





lemma register_keeps_instances:
  assumes "AKObjectRegistry_register s1 obj j = Inr (obj', s2)"
    and "registry s1 i = Some item"
  shows "\<exists>item'. registry s2 i = Some item'
           \<and> (\<forall>k old. instances item k = Some old \<longrightarrow> instances item' k = Some old)"
  using assms
  by (cases "j = i")
     (auto simp: AKObjectRegistry_register_def assert_default_eq Let_def
      split: if_splits option.splits)

text \<open>
  Resolving and adding a listener leave resolving undisturbed, on every element; and so
  does any sequence of them.
\<close>

lemma undisturbed_refl: "undisturbed s s i"
  by (simp add: undisturbed_def)

lemma undisturbed_trans:
  assumes "undisturbed s t i" and "undisturbed t u i"
  shows "undisturbed s u i"
  unfolding undisturbed_def
proof (intro conjI allI impI)
  fix item
  assume "registry s i = Some item"
  with assms(1) obtain item1 where
    1: "registry t i = Some item1"
       "\<forall>k obj. instances item k = Some obj \<longrightarrow> instances item1 k = Some obj"
    unfolding undisturbed_def by blast
  with assms(2) obtain item2 where
    2: "registry u i = Some item2"
       "\<forall>k obj. instances item1 k = Some obj \<longrightarrow> instances item2 k = Some obj"
    unfolding undisturbed_def by blast
  from 1(2) 2 show "\<exists>item'. registry u i = Some item'
      \<and> (\<forall>k obj. instances item k = Some obj \<longrightarrow> instances item' k = Some obj)"
    by blast
qed (use assms in \<open>simp_all add: undisturbed_def\<close>)

lemma get_undisturbed:
  assumes g: "AKObjectManager_get t e n = Inr (obj, t')"
  shows "undisturbed t t' i"
proof -
  let ?j = "toLowerCase (el_id e)"
  from g have ne: "el_id e \<noteq> []" "n \<noteq> []"
    by (auto simp: AKObjectManager_get_eq split: if_splits)
  with g obtain c where c: "get_akClass t e n = Inr c"
    by (auto simp: AKObjectManager_get_eq split: sum.splits)
  show ?thesis
  proof (cases "lookup_instance t ?j c")
    case (Some o1)
    with g ne c have "t' = t" by (auto simp: AKObjectManager_get_eq)
    then show ?thesis by (simp add: undisturbed_refl)
  next
    case None
    with g ne c obtain o1 s1 o2 s2 where
      n1: "new t c e = Inr (o1, s1)" and
      r1: "AKObjectRegistry_register s1 o1 ?j = Inr (o2, s2)" and
      i1: "init s2 o2 = Inr (obj, t')"
      by (auto simp: AKObjectManager_get_eq andThen_eq_Inr_iff split: if_splits)
    from new_Inr [OF n1] have s1: "s1 = t\<lparr>next_object := Suc (next_object t)\<rparr>" by simp
    from register_Inr [OF r1] init_frame [OF i1] s1
    have fr: "ui_items t' = ui_items t" "component_items t' = component_items t"
      "className t' = className t"
      by simp_all
    have "\<exists>item'. registry t' i = Some item'
            \<and> (\<forall>k old. instances item k = Some old \<longrightarrow> instances item' k = Some old)"
      if "registry t i = Some item" for item
    proof -
      from that s1 have "registry s1 i = Some item" by simp
      from register_keeps_instances [OF r1 this] obtain item2 where
        2: "registry s2 i = Some item2"
           "\<forall>k old. instances item k = Some old \<longrightarrow> instances item2 k = Some old"
        by blast
      from init_frame [OF i1]
      have "map_option instances (registry t' i) = map_option instances (registry s2 i)"
        by simp
      with 2(1) obtain item3 where "registry t' i = Some item3" "instances item3 = instances item2"
        by (cases "registry t' i") auto
      with 2(2) show ?thesis by simp
    qed
    with fr show ?thesis by (simp add: undisturbed_def)
  qed
qed

lemma listenerAdded_undisturbed:
  assumes "AKObjectManager_listenerAdded t e = Inr (c, t')"
  shows "undisturbed t t' i"
proof -
  from assms have a: "AKObjectRegistry_addListenerController t (toLowerCase (el_id e)) = Inr (c, t')"
    by (simp add: AKObjectManager_listenerAdded_def)
  from addListenerController_frame [OF a]
  have fr: "ui_items t' = ui_items t" "component_items t' = component_items t"
    "className t' = className t"
    and m: "map_option instances (registry t' i) = map_option instances (registry t i)"
    by simp_all
  have "\<exists>item'. registry t' i = Some item'
          \<and> (\<forall>k old. instances item k = Some old \<longrightarrow> instances item' k = Some old)"
    if "registry t i = Some item" for item
  proof -
    from m that obtain item3 where "registry t' i = Some item3" "instances item3 = instances item"
      by (cases "registry t' i") auto
    then show ?thesis by simp
  qed
  with fr show ?thesis by (simp add: undisturbed_def)
qed






text \<open>A name of the \<open>ak-ui-classes\<close> list resolves to the entry of that registry.\<close>

lemma get_akClass_ui:
  assumes "matchText n (listAttribute e ''ak-ui-classes'')" and "get_akClass s e n = Inr c"
  shows "registry_find AKUiClassesRegistry s n = Some c"
proof -
  from assms have "registry_get AKUiClassesRegistry s n = Inr c"
    by (cases "sameText n (component_class_or_empty e)";
        cases "registry_get AKComponentRegistry s n")
       (auto simp: get_akClass_def andThen_eq_Inr_iff simp del: fmt.simps)
  then show ?thesis
    by (cases "registry_find AKUiClassesRegistry s n")
       (auto simp: registry_get_eq simp del: indexOf.simps split: if_splits)
qed

text \<open>
  Two names that resolve to the same class on an element share its instance: the object
  registry is keyed by the \<^verbatim>\<open>className\<close> of the class, not by the name asked for.
\<close>

lemma get_same_class_same_instance:
  assumes g1: "AKObjectManager_get s e na = Inr (o1, sa)"
    and c1: "get_akClass s e na = Inr c"
    and g2: "AKObjectManager_get sa e nb = Inr (o2, sb)"
    and c2: "get_akClass sa e nb = Inr c"
  shows "o2 = o1 \<and> sb = sa"
proof -
  from get_registers [OF g1] c1
  have l: "lookup_instance sa (toLowerCase (el_id e)) c = Some o1" and ne: "el_id e \<noteq> []"
    by auto
  from g2 have nb: "nb \<noteq> []" by (auto simp: AKObjectManager_get_eq split: if_splits)
  from get_found [OF ne nb c2 l] g2 show ?thesis by simp
qed

lemma registry_register_fresh:
  assumes "isNonEmptyStr n" and "registry_find cat s n = None"
  shows "registry_register cat n T s =
           Inr ((set_items cat ((items cat s)(toLowerCase n \<mapsto> T)) s)
                  \<lparr>className := (className s)(T := Some n)\<rparr>)"
  using assms by (simp add: registry_register_def assert_default_eq)

lemma items_className_update [simp]:
  "items cat (s\<lparr>className := f\<rparr>) = items cat s"
  by (cases cat) (simp_all add: items_def)

lemma className_set_items [simp]:
  "className (set_items cat m s) = className s"
  by (cases cat) (simp_all add: set_items_def)




lemma set_map_filter_iff:
  "y \<in> set (List.map_filter g xs) \<longleftrightarrow> (\<exists>x \<in> set xs. g x = Some y)"
  by (induction xs) (auto split: option.splits)

lemma registered_types_set:
  "t \<in> set (registered_types f s a) \<longleftrightarrow>
     (\<exists>n \<in> set (declared_bindings f a). registry_find (family_catalog f) s n = Some t) \<and> family t = f"
  by (auto simp: registered_types_def set_map_filter_iff)

lemma typed_under_Some:
  assumes "typed_under f s a = Some t"
  shows "(\<exists>n \<in> set (declared_bindings f a). registry_find (family_catalog f) s n = Some t) \<and> family t = f"
proof -
  from assms have "t \<in> set (registered_types f s a)"
    by (cases "registered_types f s a") (simp_all add: typed_under_def)
  then show ?thesis by (simp add: registered_types_set)
qed

lemma typed_under_None_iff:
  "typed_under f s a = None \<longleftrightarrow>
     (\<forall>n \<in> set (declared_bindings f a). \<forall>t.
         registry_find (family_catalog f) s n = Some t \<longrightarrow> family t \<noteq> f)"
proof -
  have "typed_under f s a = None \<longleftrightarrow> set (registered_types f s a) = {}"
    by (cases "registered_types f s a") (simp_all add: typed_under_def)
  also have "\<dots> \<longleftrightarrow> (\<forall>t. t \<notin> set (registered_types f s a))" by auto
  also have "\<dots> \<longleftrightarrow> (\<forall>n \<in> set (declared_bindings f a). \<forall>t.
         registry_find (family_catalog f) s n = Some t \<longrightarrow> family t \<noteq> f)"
    unfolding registered_types_set by blast
  finally show ?thesis .
qed


lemma later_refl: "later s s"
  by (simp add: later_def)

lemma later_trans:
  assumes "later s s1" and "later s1 s2"
  shows "later s s2"
  unfolding later_def
proof (intro conjI allI)
  fix k
  from assms have a: "aborted s1 \<subseteq> aborted s2" by (simp add: later_def)
  from assms(1) have k1: "registry s1 k = registry s k
      \<or> (registry s1 k = None \<and> (\<forall>item. registry s k = Some item \<longrightarrow> set (controllers item) \<subseteq> aborted s1))"
    by (simp add: later_def)
  from assms(2) have k2: "registry s2 k = registry s1 k
      \<or> (registry s2 k = None \<and> (\<forall>item. registry s1 k = Some item \<longrightarrow> set (controllers item) \<subseteq> aborted s2))"
    by (simp add: later_def)
  from k1 k2 a show "registry s2 k = registry s k
      \<or> (registry s2 k = None \<and> (\<forall>item. registry s k = Some item \<longrightarrow> set (controllers item) \<subseteq> aborted s2))"
    by (metis subset_trans)
qed (use assms in \<open>auto simp: later_def\<close>)

lemma destroy_node_element:
  "destroy_node s (ElementNode e) =
     s\<lparr>dispatched := (e, ''destroy'') # dispatched s,
       aborted := aborted s \<union> (case registry s (toLowerCase (el_id e)) of
                                  None \<Rightarrow> {} | Some item \<Rightarrow> set (controllers item)),
       registry := (registry s)(toLowerCase (el_id e) := None)\<rparr>"
  by (simp add: destroy_node_def AKObjectManager_delete_def AKObjectRegistry_unregister_eq
      dispatchEvent_def)

lemma later_destroy_node: "later s (destroy_node s aNode)"
proof (cases aNode)
  case (ElementNode e)
  then show ?thesis
    by (auto simp: later_def destroy_node_element)
qed (simp_all add: destroy_node_def later_refl)

lemma later_destroy_nodes: "later s (snd (destroy_nodes s ns))"
proof (induction ns arbitrary: s)
  case Nil
  show ?case by (simp add: later_refl)
next
  case (Cons x ns)
  show ?case
  proof (cases "destroy_node_throws s x")
    case True
    then show ?thesis by (simp add: later_destroy_node)
  next
    case False
    from later_trans [OF later_destroy_node [of s x] Cons [of "destroy_node s x"]] False
    show ?thesis by simp
  qed
qed

lemma later_observeDestroy: "later s (snd (observeDestroy s batch))"
proof (induction batch arbitrary: s)
  case Nil
  show ?case by (simp add: later_refl)
next
  case (Cons m batch)
  show ?case
  proof (cases "mutation_type m = ''childList''")
    case False
    with Cons [of s] show ?thesis by simp
  next
    case True
    obtain r s1 where d: "destroy_nodes s (removedNodes m) = (r, s1)"
      by (cases "destroy_nodes s (removedNodes m)")
    from later_destroy_nodes [of s "removedNodes m"] d have l1: "later s s1" by simp
    show ?thesis
    proof (cases r)
      case None
      from later_trans [OF l1 Cons [of s1]] True d None show ?thesis by simp
    next
      case (Some err)
      with True d l1 show ?thesis by simp
    qed
  qed
qed

lemma torn_down_destroy_node: "torn_down s e (destroy_node s (ElementNode e))"
  by (auto simp: torn_down_def destroy_node_element)

lemma torn_down_later:
  assumes "torn_down s e s1" and "later s1 s2"
  shows "torn_down s e s2"
proof -
  let ?i = "toLowerCase (el_id e)"
  from assms(2) have d: "set (dispatched s1) \<subseteq> set (dispatched s2)"
    and a: "aborted s1 \<subseteq> aborted s2"
    and k: "registry s2 ?i = registry s1 ?i \<or> registry s2 ?i = None"
    by (auto simp: later_def)
  from assms(1) d a k show ?thesis
    by (auto simp: torn_down_def)
qed

lemma later_torn_down:
  assumes "later s s1" and "torn_down s1 e s2" and "later s1 s2"
  shows "torn_down s e s2"
proof -
  let ?i = "toLowerCase (el_id e)"
  from assms(1) have k: "registry s1 ?i = registry s ?i
      \<or> (registry s1 ?i = None \<and> (\<forall>item. registry s ?i = Some item \<longrightarrow> set (controllers item) \<subseteq> aborted s1))"
    by (simp add: later_def)
  from assms(3) have a: "aborted s1 \<subseteq> aborted s2" by (simp add: later_def)
  from assms(2) k a show ?thesis
    unfolding torn_down_def by (metis subset_trans)
qed

lemma torn_down_destroy_nodes:
  "ElementNode e \<in> set ns \<Longrightarrow> fst (destroy_nodes s ns) = None \<Longrightarrow>
   torn_down s e (snd (destroy_nodes s ns))"
proof (induction ns arbitrary: s)
  case Nil
  then show ?case by simp
next
  case (Cons x ns)
  from Cons.prems(2) have nt: "\<not> destroy_node_throws s x"
    by (auto split: if_splits)
  with Cons.prems(2) have ok: "fst (destroy_nodes (destroy_node s x) ns) = None" by simp
  show ?case
  proof (cases "x = ElementNode e")
    case True
    from torn_down_later [OF torn_down_destroy_node later_destroy_nodes, of s e ns] True nt
    show ?thesis by simp
  next
    case False
    with Cons.prems have "ElementNode e \<in> set ns" by simp
    from Cons.IH [OF this ok]
    have "torn_down (destroy_node s x) e (snd (destroy_nodes (destroy_node s x) ns))" .
    from later_torn_down [OF later_destroy_node this later_destroy_nodes] nt
    show ?thesis by simp
  qed
qed

lemma torn_down_observeDestroy:
  assumes "m \<in> set batch" and "mutation_type m = ''childList''"
    and "ElementNode e \<in> set (removedNodes m)"
    and "fst (observeDestroy s batch) = None"
  shows "torn_down s e (snd (observeDestroy s batch))"
  using assms(1,4)
proof (induction batch arbitrary: s)
  case Nil
  then show ?case by simp
next
  case (Cons x batch)
  show ?case
  proof (cases "mutation_type x = ''childList''")
    case False
    with Cons.prems assms(2) have "m \<in> set batch" and "fst (observeDestroy s batch) = None"
      by auto
    from Cons.IH [OF this] False show ?thesis by simp
  next
    case True
    obtain r s1 where d: "destroy_nodes s (removedNodes x) = (r, s1)"
      by (cases "destroy_nodes s (removedNodes x)")
    from Cons.prems(2) True d have r: "r = None" and ok: "fst (observeDestroy s1 batch) = None"
      by (cases r; simp)+
    from later_destroy_nodes [of s "removedNodes x"] d have l1: "later s s1" by simp
    from True d r have eq: "observeDestroy s (x # batch) = observeDestroy s1 batch" by simp
    show ?thesis
    proof (cases "x = m")
      case True
      with assms(3) d r torn_down_destroy_nodes [of e "removedNodes x" s]
      have "torn_down s e s1" by simp
      from torn_down_later [OF this later_observeDestroy [of s1 batch]] eq
      show ?thesis by simp
    next
      case False
      with Cons.prems have "m \<in> set batch" by simp
      from later_torn_down [OF l1 Cons.IH [OF this ok] later_observeDestroy] eq
      show ?thesis by simp
    qed
  qed
qed

text \<open>
  A batch in which no listed element has an id that names a property of
  \<^verbatim>\<open>Object.prototype\<close> is processed to its end.
\<close>

lemma destroy_nodes_ends:
  assumes "\<forall>e. ElementNode e \<in> set ns \<longrightarrow> toLowerCase (el_id e) \<notin> set object_prototype_properties"
  shows "fst (destroy_nodes s ns) = None"
  using assms
proof (induction ns arbitrary: s)
  case Nil
  show ?case by simp
next
  case (Cons x ns)
  from Cons.prems have "\<not> destroy_node_throws s x"
    by (cases x) (auto simp: destroy_node_throws_def inherited_item_def)
  with Cons show ?case by simp
qed

lemma observeDestroy_ends:
  assumes "\<forall>m e. m \<in> set batch \<and> ElementNode e \<in> set (removedNodes m) \<longrightarrow>
             toLowerCase (el_id e) \<notin> set object_prototype_properties"
  shows "fst (observeDestroy s batch) = None"
  using assms
proof (induction batch arbitrary: s)
  case Nil
  show ?case by simp
next
  case (Cons x batch)
  from Cons.prems have "fst (destroy_nodes s (removedNodes x)) = None"
    by (intro destroy_nodes_ends) auto
  then obtain s1 where d: "destroy_nodes s (removedNodes x) = (None, s1)"
    by (cases "destroy_nodes s (removedNodes x)") auto
  from Cons.prems have "\<forall>m e. m \<in> set batch \<and> ElementNode e \<in> set (removedNodes m) \<longrightarrow>
             toLowerCase (el_id e) \<notin> set object_prototype_properties"
    by auto
  from Cons.IH [OF this] d show ?case by simp
qed

text \<open>
  What the teardown does for the elements its records list, when it runs to its end: the
  event is dispatched, every controller of the item is aborted and the item is gone, so
  that a later \<open>get\<close> for the element that returns has constructed its instance anew.
\<close>

lemma observeDestroy_listed_element:
  assumes "m \<in> set batch" and "mutation_type m = ''childList''"
    and "ElementNode e \<in> set (removedNodes m)"
    and "observeDestroy s batch = (None, s')"
  shows "(e, ''destroy'') \<in> set (dispatched s')
       \<and> (\<forall>item. registry s (toLowerCase (el_id e)) = Some item \<longrightarrow>
             set (controllers item) \<subseteq> aborted s')
       \<and> registry s' (toLowerCase (el_id e)) = None
       \<and> (\<forall>T obj s''. AKObjectManager_get s' e T = Inr (obj, s'') \<longrightarrow>
             (\<exists>c. obj = AKObject (next_object s) c e) \<and> next_object s'' = Suc (next_object s)
             \<and> (refs_allocated s \<longrightarrow>
                  (\<forall>i item k old. registry s i = Some item \<and> instances item k = Some old
                      \<longrightarrow> old \<noteq> obj)))"
proof -
  let ?i = "toLowerCase (el_id e)"
  from torn_down_observeDestroy [OF assms(1,2,3), of s] assms(4)
  have d: "(e, ''destroy'') \<in> set (dispatched s')"
    and r: "registry s' ?i = None"
    and c: "\<forall>item. registry s ?i = Some item \<longrightarrow> set (controllers item) \<subseteq> aborted s'"
    by (simp_all add: torn_down_def)
  from later_observeDestroy [of s batch] assms(4) have n: "next_object s' = next_object s"
    by (simp add: later_def)
  have g: "(\<exists>c. obj = AKObject (next_object s) c e) \<and> next_object s'' = Suc (next_object s)
           \<and> (refs_allocated s \<longrightarrow>
                  (\<forall>i item k old. registry s i = Some item \<and> instances item k = Some old
                      \<longrightarrow> old \<noteq> obj))"
    if h: "AKObjectManager_get s' e T = Inr (obj, s'')" for T obj s''
  proof -
    from get_registers [OF h] obtain c where
      c: "lookup_instance s' ?i c = None \<longrightarrow>
            obj = AKObject (next_object s') c e \<and> next_object s'' = Suc (next_object s')"
      by (elim exE conjE) (rule that; assumption)
    from r have "lookup_instance s' ?i c = None" by (simp add: lookup_instance_def)
    with c n have o: "obj = AKObject (next_object s) c e" and n': "next_object s'' = Suc (next_object s)"
      by simp_all
    have "old \<noteq> obj"
      if "refs_allocated s" "registry s i = Some item" "instances item k = Some old" for i item k old
    proof -
      from that have "obj_ref old < next_object s" unfolding refs_allocated_def by blast
      with o show ?thesis by auto
    qed
    with o n' show ?thesis by blast
  qed
  from d r c g show ?thesis by (intro conjI allI impI) blast+
qed

lemma register_instances:
  assumes "AKObjectRegistry_register s1 obj i = Inr (obj', s2)"
    and "registry s2 k = Some item2" and "instances item2 key = Some old"
  shows "old = obj \<or> (\<exists>item. registry s1 k = Some item \<and> instances item key = Some old)"
  using assms
  by (auto simp: AKObjectRegistry_register_def assert_default_eq Let_def
      split: if_splits option.splits)

text \<open>
  Every instance in the object registry has a reference below the allocation counter:
  this holds in the initial state and is kept by every operation.
\<close>

lemma refs_allocated_initial: "refs_allocated initial_state"
  by (simp add: refs_allocated_def initial_state_def)

lemma refs_allocated_get:
  assumes g: "AKObjectManager_get s e n = Inr (obj, s')" and inv: "refs_allocated s"
  shows "refs_allocated s'"
proof -
  let ?i = "toLowerCase (el_id e)"
  from g have ne: "el_id e \<noteq> []" "n \<noteq> []"
    by (auto simp: AKObjectManager_get_eq split: if_splits)
  with g obtain c where c: "get_akClass s e n = Inr c"
    by (auto simp: AKObjectManager_get_eq split: sum.splits)
  show ?thesis
  proof (cases "lookup_instance s ?i c")
    case (Some o1)
    with g ne c have "s' = s" by (auto simp: AKObjectManager_get_eq)
    with inv show ?thesis by simp
  next
    case None
    with g ne c obtain o1 s1 o2 s2 where
      n1: "new s c e = Inr (o1, s1)" and
      r1: "AKObjectRegistry_register s1 o1 ?i = Inr (o2, s2)" and
      i1: "init s2 o2 = Inr (obj, s')"
      by (auto simp: AKObjectManager_get_eq andThen_eq_Inr_iff split: if_splits)
    from new_Inr [OF n1] have o1: "obj_ref o1 = next_object s"
      and s1: "s1 = s\<lparr>next_object := Suc (next_object s)\<rparr>" by simp_all
    from register_Inr [OF r1] have n2: "next_object s2 = next_object s1" by simp
    from init_frame [OF i1] have n3: "next_object s' = next_object s2"
      and r3: "\<forall>k. map_option instances (registry s' k) = map_option instances (registry s2 k)"
      by simp_all
    show ?thesis
      unfolding refs_allocated_def
    proof (intro allI impI)
      fix k item key old
      assume a: "registry s' k = Some item" "instances item key = Some old"
      from r3 a(1) obtain item2 where i2: "registry s2 k = Some item2" "instances item2 = instances item"
        by (cases "registry s2 k") (auto dest: spec [of _ k])
      from register_instances [OF r1 i2(1), of key old] a(2) i2(2)
      have "old = o1 \<or> (\<exists>it. registry s1 k = Some it \<and> instances it key = Some old)" by simp
      then have "obj_ref old < Suc (next_object s)"
      proof
        assume "old = o1"
        with o1 show ?thesis by simp
      next
        assume "\<exists>it. registry s1 k = Some it \<and> instances it key = Some old"
        then obtain it where "registry s k = Some it" "instances it key = Some old"
          by (auto simp: s1)
        with inv have "obj_ref old < next_object s" unfolding refs_allocated_def by blast
        then show ?thesis by simp
      qed
      with n2 n3 s1 show "obj_ref old < next_object s'" by simp
    qed
  qed
qed

lemma refs_allocated_later:
  assumes "later s s'" and "refs_allocated s"
  shows "refs_allocated s'"
  unfolding refs_allocated_def
proof (intro allI impI)
  fix k item key old
  assume a: "registry s' k = Some item" "instances item key = Some old"
  from assms(1) have "registry s' k = registry s k \<or> registry s' k = None"
    and n: "next_object s' = next_object s"
    by (auto simp: later_def)
  with a(1) have "registry s k = Some item" by auto
  with assms(2) a(2) have "obj_ref old < next_object s" unfolding refs_allocated_def by blast
  with n show "obj_ref old < next_object s'" by simp
qed

lemma refs_allocated_observeDestroy:
  "refs_allocated s \<Longrightarrow> refs_allocated (snd (observeDestroy s batch))"
  by (rule refs_allocated_later [OF later_observeDestroy])

lemma refs_allocated_registry_register:
  assumes "registry_register cat n T s = Inr s'" and "refs_allocated s"
  shows "refs_allocated s'"
proof -
  from assms(1) have "registry s' = registry s \<and> next_object s' = next_object s"
    by (cases cat)
       (auto simp: registry_register_def assert_default_eq set_items_def split: if_splits)
  with assms(2) show ?thesis by (simp add: refs_allocated_def)
qed

section \<open>Evaluation at examples\<close>

lemmas example_defs =
  Panel_def Tab_def PanelComponent_def registered_state_def n1_def attached_state_def
  both_state_def n2_def node_A_def node_B_def node_C_def initial_state_def

lemmas evaluation_defs =
  AKObjectManager_get_eq get_akClass_def component_class_or_empty_def registry_get_eq
  registry_find_def items_def set_items_def isNonEmptyStr_def sameText_def case_conversion_defs
  getAttribute_def listAttribute_def lookup_instance_def property_key_def new_def AKAssert_eq
  truthy_def validateElement_def AKObjectRegistry_register_def assert_default_eq init_def
  AKObjectManager_listenerAdded_def AKObjectRegistry_addListenerController_def Let_def
  catalog_name_def registry_register_def numeral_2_eq_2 numeral_3_eq_3
  inherited_item_def object_prototype_properties_def

text \<open>The example states are reached from the initial state through the interface.\<close>

lemma registered_state_reached:
  "andThen (registry_register AKUiClassesRegistry ''Panel'' Panel initial_state)
     (registry_register AKUiClassesRegistry ''Tab'' Tab) = Inr registered_state"
  by (simp add: example_defs evaluation_defs fun_upd_twist)

lemma attached_state_reached:
  "andThen (AKObjectManager_get registered_state n1 ''Panel'')
     (\<lambda>(obj, s). AKObjectManager_get s n1 ''Tab'') = Inr (AKObject 1 Tab n1, attached_state)"
  by (simp add: example_defs evaluation_defs)

lemma both_state_reached:
  "registry_register AKComponentRegistry ''Panel'' PanelComponent registered_state = Inr both_state"
  by (simp add: example_defs evaluation_defs)

lemma tree_state_reached:
  "andThen (AKObjectManager_get registered_state node_A ''Panel'')
     (\<lambda>(obj, s). AKObjectManager_get s node_C ''Tab'') = Inr (AKObject 1 Tab node_C, tree_state)"
  by (simp add: example_defs evaluation_defs tree_state_def)

lemma inner_state_reached:
  "AKObjectManager_get both_state node_I ''panel'' = Inr (AKObject 0 PanelComponent node_I, inner_state)"
  by (simp add: example_defs evaluation_defs node_O_def node_M_def node_I_def inner_state_def)

lemma odd_state_reached:
  "registry_register AKUiClassesRegistry ''Odd'' PanelComponent registered_state = Inr odd_state"
  by (simp add: example_defs evaluation_defs odd_state_def)

section \<open>The claims\<close>




lemma typecast_not_Inr:
  "andThen (fmt tmpl vs) (\<lambda>msg. Inl (namedError msg nm)) \<noteq> Inr c"
  by (cases "fmt tmpl vs") simp_all

text \<open>
  C2 fails on the code. The teardown processes the nodes its records list and never walks
  into them, although \<^verbatim>\<open>enhanceElement\<close> attaches a whole subtree: when A (typed
  \<open>Panel\<close>), which contains B, which contains C (typed \<open>Tab\<close>), is removed from the
  document, C leaves the tree with it, but after the batch no \<open>destroy\<close> event has been
  dispatched on C, its controller is not aborted, its item is still in the object
  registry, and \<open>get\<close> of \<open>Tab\<close> on C returns the old instance and constructs nothing.

  And a listed element can be left as it was: in the record that lists an element with
  the id \<open>constructor\<close> before the element \<open>N1\<close>, \<^verbatim>\<open>unregister\<close> throws on the first
  and the batch ends there; \<open>N1\<close> gets no event and keeps its item and its controllers.
\<close>

theorem C2_teardown_misses_removed_nodes:
  "andThen (AKObjectManager_get registered_state node_A ''Panel'')
     (\<lambda>(obj, s). AKObjectManager_get s node_C ''Tab'') = Inr (AKObject 1 Tab node_C, tree_state)
   \<and> node_A \<in> set (ancestor_chain (parentElement node_C))
   \<and> observeDestroy tree_state
         [\<lparr>mutation_type = ''childList'', removedNodes = [ElementNode node_A]\<rparr>]
       = (None, removed_state)
   \<and> registry removed_state ''a'' = None
   \<and> dispatched removed_state = [(node_A, ''destroy'')]
   \<and> aborted removed_state = {0, 1}
   \<and> (node_C, ''destroy'') \<notin> set (dispatched removed_state)
   \<and> map_option controllers (registry removed_state ''c'') = Some [2]
   \<and> 2 \<notin> aborted removed_state
   \<and> lookup_instance removed_state ''c'' Tab = Some (AKObject 1 Tab node_C)
   \<and> AKObjectManager_get removed_state node_C ''Tab'' = Inr (AKObject 1 Tab node_C, removed_state)
   \<and> observeDestroy attached_state
         [\<lparr>mutation_type = ''childList'',
           removedNodes = [ElementNode (Element ''constructor'' [] None), ElementNode n1]\<rparr>]
       = (Some (Error ''TypeError'' ''Cannot read properties of undefined''),
          attached_state\<lparr>dispatched := [(Element ''constructor'' [] None, ''destroy'')]\<rparr>)"
  by (simp add: example_defs evaluation_defs tree_state_def removed_state_def
      destroy_node_def destroy_node_throws_def AKObjectManager_delete_def
      AKObjectRegistry_unregister_eq dispatchEvent_def)

text \<open>
  C3 as the specification states it fails: the element \<open>n2\<close> declares \<open>Panel\<close> in both
  attributes, and the class resolved is the one of the registry of visual-behaviour
  classes, where the specification's order gives the one of the registry of components.
\<close>

theorem C3_same_name_in_both_counterexample:
  "get_akClass both_state n2 ''Panel'' = Inr Panel
   \<and> map_sum id fst (AKObjectManager_get both_state n2 ''Panel'') = Inr (AKObject 0 Panel n2)
   \<and> resolution_order_spec both_state n2 ''Panel'' = Inr PanelComponent
   \<and> sameText ''Panel'' (component_class_or_empty n2)
   \<and> matchText ''Panel'' (listAttribute n2 ''ak-ui-classes'')
   \<and> registry_find AKComponentRegistry both_state ''Panel'' = Some PanelComponent
   \<and> registry_find AKUiClassesRegistry both_state ''Panel'' = Some Panel
   \<and> Panel \<noteq> PanelComponent"
  by (simp add: example_defs evaluation_defs resolution_order_spec_def)

text \<open>
  C3, amended. For a name without the placeholder \<open>%s\<close>: when the name is in the
  \<open>ak-ui-classes\<close> list of the element, the class resolved is the entry of the registry of
  visual-behaviour classes, also when the \<open>ak-component-class\<close> attribute equals the name
  (the registry of components is then asked first and must have an entry, which is
  dropped); only when the name is not in the list and equals the \<open>ak-component-class\<close>
  attribute is the class the entry of the registry of components. Names are compared
  without regard to case. The instance \<open>get\<close> returns is the one the object registry
  holds for the class so resolved.
\<close>

theorem C3_resolution_order:
  assumes "indexOf n ''%s'' = None"
  shows "(get_akClass s e n = Inr c \<longleftrightarrow>
           (if matchText n (listAttribute e ''ak-ui-classes'')
            then registry_find AKUiClassesRegistry s n = Some c
                 \<and> (sameText n (component_class_or_empty e) \<longrightarrow>
                      registry_find AKComponentRegistry s n \<noteq> None)
            else sameText n (component_class_or_empty e)
                 \<and> registry_find AKComponentRegistry s n = Some c))
       \<and> (\<forall>obj s'. AKObjectManager_get s e n = Inr (obj, s') \<longrightarrow>
             (\<exists>c'. get_akClass s e n = Inr c'
                   \<and> lookup_instance s' (toLowerCase (el_id e)) c' = Some obj))"
proof (rule conjI)
  show "\<forall>obj s'. AKObjectManager_get s e n = Inr (obj, s') \<longrightarrow>
             (\<exists>c'. get_akClass s e n = Inr c'
                   \<and> lookup_instance s' (toLowerCase (el_id e)) c' = Some obj)"
  proof (intro allI impI)
    fix obj s'
    assume "AKObjectManager_get s e n = Inr (obj, s')"
    from get_registers [OF this] obtain c' where
      "get_akClass s e n = Inr c'" "lookup_instance s' (toLowerCase (el_id e)) c' = Some obj"
      by (elim exE conjE) (rule that; assumption)
    then show "\<exists>c'. get_akClass s e n = Inr c'
                   \<and> lookup_instance s' (toLowerCase (el_id e)) c' = Some obj"
      by (intro exI [of _ c'] conjI)
  qed
next
  show "get_akClass s e n = Inr c \<longleftrightarrow>
           (if matchText n (listAttribute e ''ak-ui-classes'')
            then registry_find AKUiClassesRegistry s n = Some c
                 \<and> (sameText n (component_class_or_empty e) \<longrightarrow>
                      registry_find AKComponentRegistry s n \<noteq> None)
            else sameText n (component_class_or_empty e)
                 \<and> registry_find AKComponentRegistry s n = Some c)"
  proof (cases "sameText n (component_class_or_empty e)")
    case True
    show ?thesis
    proof (cases "registry_find AKComponentRegistry s n")
      case None
      with True assms show ?thesis
        by (simp add: get_akClass_def registry_get_eq del: fmt.simps indexOf.simps)
    next
      case (Some c1)
      with True assms show ?thesis
        by (cases "registry_find AKUiClassesRegistry s n")
           (auto simp: get_akClass_def registry_get_eq simp del: fmt.simps indexOf.simps)
    qed
  next
    case False
    with assms show ?thesis
      by (cases "registry_find AKUiClassesRegistry s n")
         (auto simp: get_akClass_def registry_get_eq typecast_not_Inr
               simp del: fmt.simps indexOf.simps)
  qed
qed

text \<open>
  C3, amended, at the example: \<open>Panel\<close> declared in both attributes of \<open>n2\<close> resolves to
  the visual-behaviour class.
\<close>

theorem C3_resolution_order_witness:
  "indexOf ''Panel'' ''%s'' = None
   \<and> get_akClass both_state n2 ''Panel'' = Inr Panel
   \<and> matchText ''Panel'' (listAttribute n2 ''ak-ui-classes'')
   \<and> registry_find AKUiClassesRegistry both_state ''Panel'' = Some Panel
   \<and> sameText ''Panel'' (component_class_or_empty n2)
   \<and> registry_find AKComponentRegistry both_state ''Panel'' \<noteq> None"
proof -
  have h: "indexOf ''Panel'' ''%s'' = None" by simp
  have m: "matchText ''Panel'' (listAttribute n2 ''ak-ui-classes'')"
    by (simp add: example_defs evaluation_defs)
  have f: "registry_find AKUiClassesRegistry both_state ''Panel'' = Some Panel"
    by (simp add: example_defs evaluation_defs)
  have st: "sameText ''Panel'' (component_class_or_empty n2)"
    by (simp add: example_defs evaluation_defs)
  have fc: "registry_find AKComponentRegistry both_state ''Panel'' \<noteq> None"
    by (simp add: example_defs evaluation_defs)
  from C3_resolution_order [OF h, of both_state n2 Panel]
  have "get_akClass both_state n2 ''Panel'' = Inr Panel \<longleftrightarrow>
           (if matchText ''Panel'' (listAttribute n2 ''ak-ui-classes'')
            then registry_find AKUiClassesRegistry both_state ''Panel'' = Some Panel
                 \<and> (sameText ''Panel'' (component_class_or_empty n2) \<longrightarrow>
                      registry_find AKComponentRegistry both_state ''Panel'' \<noteq> None)
            else sameText ''Panel'' (component_class_or_empty n2)
                 \<and> registry_find AKComponentRegistry both_state ''Panel'' = Some Panel)"
    by (rule conjunct1)
  with m f st fc have "get_akClass both_state n2 ''Panel'' = Inr Panel" by simp
  with h m f st fc show ?thesis by simp
qed

text \<open>
  C4 as the specification states it fails: a name the element declares, for which the
  registry has no entry, fails with the \<open>AssertionFailure\<close> of the registry's \<open>get\<close>, whose
  message names the type only; it is not the \<open>AKInvalidTypecast\<close> error.
\<close>

theorem C4_missing_catalog_entry_counterexample:
  "AKObjectManager_get initial_state (Element ''n1'' [(''ak-component-class'', ''Foo'')] None) ''Foo''
     = Inl (Error ''AssertionFailure'' ''[AKComponentRegistry] Class \"Foo\" not found.'')
   \<and> AKObjectManager_get registered_state (Element ''n1'' [(''ak-ui-classes'', ''Bar'')] None) ''Bar''
     = Inl (Error ''AssertionFailure'' ''[AKUiClassesRegistry] Class \"Bar\" not found.'')"
  by (simp add: example_defs evaluation_defs)

text \<open>
  C4, amended. For an element with an id and a non-empty name, neither holding the
  placeholder \<open>%s\<close>: a name that matches neither the \<open>ak-component-class\<close> attribute nor a
  token of the \<open>ak-ui-classes\<close> list fails with \<open>AKInvalidTypecast\<close>, and the message names
  the type and the id of the element; a name that matches an attribute whose registry has
  no entry for it fails with the \<open>AssertionFailure\<close> of that registry, "Class ... not
  found", which names the type.
\<close>

theorem C4_resolve_failures:
  assumes "el_id e \<noteq> []" and "n \<noteq> []"
    and "indexOf n ''%s'' = None" and "indexOf (el_id e) ''%s'' = None"
  shows "(\<not> sameText n (component_class_or_empty e)
            \<and> \<not> matchText n (listAttribute e ''ak-ui-classes'') \<longrightarrow>
          AKObjectManager_get s e n =
            Inl (Error ''AKInvalidTypecast''
                  (''Invalid AKObject class '' @ n @ '' for element '' @ el_id e @ ''.'')))
       \<and> (sameText n (component_class_or_empty e)
            \<and> registry_find AKComponentRegistry s n = None \<longrightarrow>
          AKObjectManager_get s e n =
            Inl (Error ''AssertionFailure'' (''[AKComponentRegistry] Class \"'' @ n @ ''\" not found.'')))
       \<and> (matchText n (listAttribute e ''ak-ui-classes'')
            \<and> registry_find AKUiClassesRegistry s n = None
            \<and> (sameText n (component_class_or_empty e) \<longrightarrow>
                 registry_find AKComponentRegistry s n \<noteq> None) \<longrightarrow>
          AKObjectManager_get s e n =
            Inl (Error ''AssertionFailure'' (''[AKUiClassesRegistry] Class \"'' @ n @ ''\" not found.'')))"
proof (intro conjI impI)
  assume "\<not> sameText n (component_class_or_empty e) \<and> \<not> matchText n (listAttribute e ''ak-ui-classes'')"
  then have "get_akClass s e n =
      Inl (Error ''AKInvalidTypecast'' (''Invalid AKObject class '' @ n @ '' for element '' @ el_id e @ ''.''))"
    by (simp add: get_akClass_def fmt_typecast [OF assms(3,4)] namedError_def isNonEmptyStr_def
        del: fmt.simps)
  with assms(1,2) show "AKObjectManager_get s e n =
      Inl (Error ''AKInvalidTypecast'' (''Invalid AKObject class '' @ n @ '' for element '' @ el_id e @ ''.''))"
    by (simp add: AKObjectManager_get_eq)
next
  assume "sameText n (component_class_or_empty e) \<and> registry_find AKComponentRegistry s n = None"
  then have "get_akClass s e n =
      Inl (Error ''AssertionFailure'' (''[AKComponentRegistry] Class \"'' @ n @ ''\" not found.''))"
    using assms(3)
    by (simp add: get_akClass_def registry_get_eq catalog_name_def del: fmt.simps indexOf.simps)
  with assms(1,2) show "AKObjectManager_get s e n =
      Inl (Error ''AssertionFailure'' (''[AKComponentRegistry] Class \"'' @ n @ ''\" not found.''))"
    by (simp add: AKObjectManager_get_eq)
next
  assume a: "matchText n (listAttribute e ''ak-ui-classes'')
            \<and> registry_find AKUiClassesRegistry s n = None
            \<and> (sameText n (component_class_or_empty e) \<longrightarrow>
                 registry_find AKComponentRegistry s n \<noteq> None)"
  then have "get_akClass s e n =
      Inl (Error ''AssertionFailure'' (''[AKUiClassesRegistry] Class \"'' @ n @ ''\" not found.''))"
    using assms(3)
    by (cases "registry_find AKComponentRegistry s n")
       (auto simp: get_akClass_def registry_get_eq catalog_name_def
             simp del: fmt.simps indexOf.simps)
  with assms(1,2) show "AKObjectManager_get s e n =
      Inl (Error ''AssertionFailure'' (''[AKUiClassesRegistry] Class \"'' @ n @ ''\" not found.''))"
    by (simp add: AKObjectManager_get_eq)
qed

text \<open>
  C4, amended, at examples: an element whose \<open>ak-component-class\<close> is \<open>Foo\<close> asked for the
  visual-behaviour class \<open>Tab\<close> it does not declare; the same element asked for \<open>foo\<close>,
  which no registry holds; an element that declares \<open>Bar\<close>, which is not registered.
\<close>

theorem C4_resolve_failures_witness:
  "AKObjectManager_get registered_state (Element ''n3'' [(''ak-component-class'', ''Foo'')] None) ''Tab''
     = Inl (Error ''AKInvalidTypecast'' ''Invalid AKObject class Tab for element n3.'')
   \<and> AKObjectManager_get registered_state (Element ''n3'' [(''ak-component-class'', ''Foo'')] None) ''foo''
     = Inl (Error ''AssertionFailure'' ''[AKComponentRegistry] Class \"foo\" not found.'')
   \<and> AKObjectManager_get registered_state (Element ''n4'' [(''ak-ui-classes'', ''Panel Bar'')] None) ''Bar''
     = Inl (Error ''AssertionFailure'' ''[AKUiClassesRegistry] Class \"Bar\" not found.'')"
proof -
  let ?e3 = "Element ''n3'' [(''ak-component-class'', ''Foo'')] None"
  let ?e4 = "Element ''n4'' [(''ak-ui-classes'', ''Panel Bar'')] None"
  have a: "\<not> sameText ''Tab'' (component_class_or_empty ?e3)
           \<and> \<not> matchText ''Tab'' (listAttribute ?e3 ''ak-ui-classes'')"
    by (simp add: evaluation_defs)
  have b: "sameText ''foo'' (component_class_or_empty ?e3)
           \<and> registry_find AKComponentRegistry registered_state ''foo'' = None"
    by (simp add: example_defs evaluation_defs)
  have c: "matchText ''Bar'' (listAttribute ?e4 ''ak-ui-classes'')
           \<and> registry_find AKUiClassesRegistry registered_state ''Bar'' = None
           \<and> (sameText ''Bar'' (component_class_or_empty ?e4) \<longrightarrow>
                 registry_find AKComponentRegistry registered_state ''Bar'' \<noteq> None)"
    by (simp add: example_defs evaluation_defs)
  have "AKObjectManager_get registered_state ?e3 ''Tab''
          = Inl (Error ''AKInvalidTypecast'' (''Invalid AKObject class '' @ ''Tab'' @ '' for element '' @ el_id ?e3 @ ''.''))"
    using C4_resolve_failures [of ?e3 "''Tab''" registered_state] a by simp
  moreover have "AKObjectManager_get registered_state ?e3 ''foo''
          = Inl (Error ''AssertionFailure'' (''[AKComponentRegistry] Class \"'' @ ''foo'' @ ''\" not found.''))"
    using C4_resolve_failures [of ?e3 "''foo''" registered_state] b by simp
  moreover have "AKObjectManager_get registered_state ?e4 ''Bar''
          = Inl (Error ''AssertionFailure'' (''[AKUiClassesRegistry] Class \"'' @ ''Bar'' @ ''\" not found.''))"
    using C4_resolve_failures [of ?e4 "''Bar''" registered_state] c by simp
  ultimately show ?thesis by simp
qed

text \<open>
  C5 as the specification states it fails: \<open>delete\<close> (detach) on the element \<open>N1\<close>, whose
  item holds the controllers 0, 1 and 2, aborts all three.
\<close>

theorem C5_detach_cancels_counterexample:
  "map_option controllers (registry attached_state (toLowerCase (el_id n1))) = Some [0, 1, 2]
   \<and> aborted attached_state = {}
   \<and> aborted (AKObjectManager_delete attached_state n1) = {0, 1, 2}"
  by (auto simp: example_defs evaluation_defs AKObjectManager_delete_def
      AKObjectRegistry_unregister_eq)

text \<open>
  C5, amended. \<open>delete\<close> (detach) removes the item of the element's lower-cased id from
  the object registry, leaves every other item alone, and itself aborts every controller
  of the removed item; the teardown aborts nothing but what its call of \<open>delete\<close> aborts
  (dispatching the event aborts nothing).
\<close>

theorem C5_detach_purges_and_cancels:
  "registry (AKObjectManager_delete s e) (toLowerCase (el_id e)) = None
   \<and> (\<forall>k. k \<noteq> toLowerCase (el_id e) \<longrightarrow> registry (AKObjectManager_delete s e) k = registry s k)
   \<and> aborted (AKObjectManager_delete s e) =
       aborted s \<union> (case registry s (toLowerCase (el_id e)) of
                      None \<Rightarrow> {} | Some item \<Rightarrow> set (controllers item))
   \<and> aborted (destroy_node s (ElementNode e)) = aborted (AKObjectManager_delete s e)
   \<and> aborted (dispatchEvent s e ''destroy'') = aborted s"
  by (simp add: AKObjectManager_delete_def AKObjectRegistry_unregister_eq destroy_node_def
      dispatchEvent_def)

text \<open>
  C5, amended, at the example state with two instances and three controllers on \<open>N1\<close>.
\<close>

theorem C5_detach_purges_and_cancels_witness:
  "registry (AKObjectManager_delete attached_state n1) ''n1'' = None
   \<and> registry attached_state ''n1'' \<noteq> None
   \<and> aborted (AKObjectManager_delete attached_state n1) = aborted attached_state \<union> {0, 1, 2}
   \<and> registry (AKObjectManager_delete attached_state n1) ''n2'' = registry attached_state ''n2''"
proof -
  have i: "toLowerCase (el_id n1) = ''n1''"
    by (simp add: example_defs evaluation_defs)
  have r: "registry attached_state ''n1'' =
      Some \<lparr>instances = [''Panel'' \<mapsto> AKObject 0 Panel n1, ''Tab'' \<mapsto> AKObject 1 Tab n1],
            controllers = [0, 1, 2]\<rparr>"
    by (simp add: attached_state_def)
  from C5_detach_purges_and_cancels [of attached_state n1] i r show ?thesis
    by auto
qed

lemma contains_all_iff: "contains_all m ns \<longleftrightarrow> list_all (\<lambda>n. m n \<noteq> None) ns"
  by (induction ns) simp_all

text \<open>For a name written in lower case, \<open>contains\<close> agrees with \<open>find\<close>.\<close>

lemma registry_contains_lower_case:
  "n \<noteq> [] \<Longrightarrow> toLowerCase n = n \<Longrightarrow>
   registry_contains cat s (Name n) \<longleftrightarrow> registry_find cat s n \<noteq> None"
  by (simp add: registry_find_def isNonEmptyStr_def)

text \<open>
  C6 fails on the code: after \<^verbatim>\<open>register('Panel', Panel)\<close>, \<open>find\<close> reports the name in
  every casing, but \<open>contains\<close> reports it absent as \<open>Panel\<close> (a name and a collection
  alike) and present only as \<open>panel\<close>, the key it is stored under.
\<close>

theorem C6_contains_is_case_sensitive:
  "andThen (registry_register AKUiClassesRegistry ''Panel'' Panel initial_state)
     (registry_register AKUiClassesRegistry ''Tab'' Tab) = Inr registered_state
   \<and> registry_find AKUiClassesRegistry registered_state ''Panel'' = Some Panel
   \<and> registry_find AKUiClassesRegistry registered_state ''PANEL'' = Some Panel
   \<and> registry_contains AKUiClassesRegistry registered_state (Name ''Panel'') = False
   \<and> registry_contains AKUiClassesRegistry registered_state (Names [''Panel'']) = False
   \<and> registry_contains AKUiClassesRegistry registered_state (Name ''panel'') = True
   \<and> registry_contains AKUiClassesRegistry registered_state (Names [''panel'', ''tab'']) = True"
  using registered_state_reached
  by (simp add: example_defs evaluation_defs)

text \<open>
  C7. Registration is idempotent and the first registration wins: when \<open>name\<close> is not
  registered yet, \<open>register(name, T1)\<close> stores \<open>T1\<close> and attaches \<open>name\<close> to it; a later
  \<open>register(name2, T2)\<close> under a name that equals \<open>name\<close> up to case changes nothing at
  all (the entry is not replaced, \<open>name2\<close> is attached to no class), so \<open>find\<close> of either
  name still returns \<open>T1\<close> and the name of \<open>T1\<close> is still \<open>name\<close>. Two names are equal
  up to case, for a registry, when their lower-cased forms are equal: that form is the
  key under which \<open>register\<close> files a name and \<open>find\<close> looks it up.
\<close>

theorem C7_first_registration_wins:
  assumes "isNonEmptyStr name"
    and "registry_find cat s name = None"
    and "toLowerCase name2 = toLowerCase name"
  shows "\<exists>s1. registry_register cat name T1 s = Inr s1
          \<and> registry_register cat name2 T2 s1 = Inr s1
          \<and> registry_find cat s1 name = Some T1
          \<and> registry_find cat s1 name2 = Some T1
          \<and> className s1 T1 = Some name"
proof -
  let ?s1 = "(set_items cat ((items cat s)(toLowerCase name \<mapsto> T1)) s)
               \<lparr>className := (className s)(T1 := Some name)\<rparr>"
  have reg: "registry_register cat name T1 s = Inr ?s1"
    using assms(1,2) by (simp add: registry_register_def andThen_def assert_default_def assert_def)
  have f1: "registry_find cat ?s1 name = Some T1"
    using assms(1) by (simp add: registry_find_def items_set_items)
  have "toLowerCase name2 \<noteq> []"
    using assms(1,3) by (simp add: toLowerCase_Nil_iff isNonEmptyStr_def)
  then have ne2: "isNonEmptyStr name2"
    by (simp add: toLowerCase_Nil_iff isNonEmptyStr_def)
  have f2: "registry_find cat ?s1 name2 = Some T1"
    using ne2 assms(3) by (simp add: registry_find_def items_set_items)
  have reg2: "registry_register cat name2 T2 ?s1 = Inr ?s1"
    using ne2 f2 by (simp add: registry_register_def andThen_def assert_default_def assert_def)
  have cn: "className ?s1 T1 = Some name"
    by (cases cat) (simp_all add: set_items_def)
  from reg reg2 f1 f2 cn show ?thesis by blast
qed

text \<open>
  C7, at an example: \<open>TabPanel\<close> registered for one class, then \<open>tabPANEL\<close> for another.
\<close>

theorem C7_first_registration_wins_witness:
  "isNonEmptyStr ''TabPanel''
   \<and> registry_find AKUiClassesRegistry initial_state ''TabPanel'' = None
   \<and> toLowerCase ''tabPANEL'' = toLowerCase ''TabPanel''
   \<and> (\<exists>s1. registry_register AKUiClassesRegistry ''TabPanel'' (AKClass 0 AKUiElement []) initial_state = Inr s1
          \<and> registry_register AKUiClassesRegistry ''tabPANEL'' (AKClass 1 AKUiElement []) s1 = Inr s1
          \<and> registry_find AKUiClassesRegistry s1 ''TabPanel'' = Some (AKClass 0 AKUiElement [])
          \<and> registry_find AKUiClassesRegistry s1 ''tabPANEL'' = Some (AKClass 0 AKUiElement [])
          \<and> className s1 (AKClass 0 AKUiElement []) = Some ''TabPanel''
          \<and> className s1 (AKClass 1 AKUiElement []) = None)"
proof -
  let ?s1 = "initial_state\<lparr>ui_items := [''tabpanel'' \<mapsto> AKClass 0 AKUiElement []],
                className := (\<lambda>_. None)(AKClass 0 AKUiElement [] := Some ''TabPanel'')\<rparr>"
  have h1: "isNonEmptyStr ''TabPanel''"
    by (simp add: isNonEmptyStr_def)
  have h2: "registry_find AKUiClassesRegistry initial_state ''TabPanel'' = None"
    by (simp add: registry_find_def items_def initial_state_def)
  have h3: "toLowerCase ''tabPANEL'' = toLowerCase ''TabPanel''"
    by (simp add: case_conversion_defs)
  have r: "registry_register AKUiClassesRegistry ''TabPanel'' (AKClass 0 AKUiElement []) initial_state = Inr ?s1"
    by (simp add: example_defs evaluation_defs)
  have n: "className ?s1 (AKClass 1 AKUiElement []) = None"
    by (simp add: initial_state_def)
  from C7_first_registration_wins [OF h1 h2 h3, of "AKClass 0 AKUiElement []" "AKClass 1 AKUiElement []"] r
  have "registry_register AKUiClassesRegistry ''tabPANEL'' (AKClass 1 AKUiElement []) ?s1 = Inr ?s1
          \<and> registry_find AKUiClassesRegistry ?s1 ''TabPanel'' = Some (AKClass 0 AKUiElement [])
          \<and> registry_find AKUiClassesRegistry ?s1 ''tabPANEL'' = Some (AKClass 0 AKUiElement [])
          \<and> className ?s1 (AKClass 0 AKUiElement []) = Some ''TabPanel''"
    by auto
  with h1 h2 h3 r n show ?thesis
    by (intro conjI exI [of _ ?s1]) simp_all
qed

lemma registry_get_absent:
  "registry_find cat s n = None \<Longrightarrow> \<exists>msg. registry_get cat s n = Inl (Error ''AssertionFailure'' msg)"
  by (simp add: registry_get_eq del: indexOf.simps)

lemma registry_get_registered:
  "registry_find cat s n = Some c \<Longrightarrow> indexOf n ''%s'' = None \<Longrightarrow> registry_get cat s n = Inr c"
  by (simp add: registry_get_eq del: indexOf.simps)

text \<open>
  C8 fails on the code: the name \<open>%s\<close> is registered and \<open>find\<close> returns its class, but
  \<open>get\<close> fails, since the message of its assertion is formatted first and \<open>fmt\<close> finds
  the placeholder again in the name it has just put in.
\<close>

theorem C8_get_fails_for_registered_placeholder_name:
  "registry_register AKUiClassesRegistry ''%s'' Panel initial_state =
     Inr (initial_state\<lparr>ui_items := [''%s'' \<mapsto> Panel], className := (\<lambda>_. None)(Panel := Some ''%s'')\<rparr>)
   \<and> registry_find AKUiClassesRegistry
        (initial_state\<lparr>ui_items := [''%s'' \<mapsto> Panel], className := (\<lambda>_. None)(Panel := Some ''%s'')\<rparr>)
        ''%s'' = Some Panel
   \<and> registry_get AKUiClassesRegistry
        (initial_state\<lparr>ui_items := [''%s'' \<mapsto> Panel], className := (\<lambda>_. None)(Panel := Some ''%s'')\<rparr>)
        ''%s'' = Inl (Error ''AssertionFailure'' ''Not enough values to format string.'')"
  by (simp add: example_defs evaluation_defs)



text \<open>
  C10. When one class is registered in a registry under two names that differ in more
  than case, that is, whose lower-cased forms, the keys of the registry, differ (both
  registrations take effect: neither name was registered before), the second
  registration overwrites its \<^verbatim>\<open>className\<close> with the second name, and both names find
  the class. For the registry of visual-behaviour classes, on every element whose
  \<open>ak-ui-classes\<close> list holds both names: when \<open>get\<close> returns for one name and then for the
  other, in either order, the second call returns the identical instance and changes
  nothing; the instance is the one the object registry holds for the class, under the key
  of its current \<^verbatim>\<open>className\<close>, the second name. (An element cannot declare two such
  names in the single \<open>ak-component-class\<close> attribute.)
\<close>

theorem C10_two_names_one_instance:
  assumes ne: "isNonEmptyStr name1" "isNonEmptyStr name2"
    and diff: "toLowerCase name1 \<noteq> toLowerCase name2"
    and fresh: "registry_find cat s0 name1 = None" "registry_find cat s0 name2 = None"
    and r1: "registry_register cat name1 T s0 = Inr s1"
    and r2: "registry_register cat name2 T s1 = Inr s2"
  shows "className s1 T = Some name1 \<and> className s2 T = Some name2
       \<and> registry_find cat s2 name1 = Some T \<and> registry_find cat s2 name2 = Some T
       \<and> (cat = AKUiClassesRegistry \<longrightarrow>
            (\<forall>e oa ob sa sb.
               matchText name1 (listAttribute e ''ak-ui-classes'') \<and>
               matchText name2 (listAttribute e ''ak-ui-classes'') \<and>
               ((AKObjectManager_get s2 e name1 = Inr (oa, sa) \<and>
                 AKObjectManager_get sa e name2 = Inr (ob, sb)) \<or>
                (AKObjectManager_get s2 e name2 = Inr (oa, sa) \<and>
                 AKObjectManager_get sa e name1 = Inr (ob, sb)))
               \<longrightarrow> ob = oa \<and> sb = sa
                   \<and> lookup_instance sa (toLowerCase (el_id e)) T = Some oa
                   \<and> property_key (className sa T) = name2))"
proof -
  note low = diff
  have s1: "s1 = (set_items cat ((items cat s0)(toLowerCase name1 \<mapsto> T)) s0)
                   \<lparr>className := (className s0)(T := Some name1)\<rparr>"
    using r1 registry_register_fresh [OF ne(1) fresh(1), of T] by simp
  have it1: "items cat s1 = (items cat s0)(toLowerCase name1 \<mapsto> T)"
    by (simp add: s1 items_set_items)
  have f12: "registry_find cat s1 name2 = None"
    using fresh(2) ne(2) low by (simp add: registry_find_def it1)
  have s2: "s2 = (set_items cat ((items cat s1)(toLowerCase name2 \<mapsto> T)) s1)
                   \<lparr>className := (className s1)(T := Some name2)\<rparr>"
    using r2 registry_register_fresh [OF ne(2) f12, of T] by simp
  have it2: "items cat s2 = (items cat s1)(toLowerCase name2 \<mapsto> T)"
    by (simp add: s2 items_set_items)
  have cn1: "className s1 T = Some name1" by (simp add: s1)
  have cn2: "className s2 T = Some name2" by (simp add: s2)
  have f1: "registry_find cat s2 name1 = Some T"
    using ne(1) low by (simp add: registry_find_def it2 it1)
  have f2: "registry_find cat s2 name2 = Some T"
    using ne(2) by (simp add: registry_find_def it2)
  have shared: "ob = oa \<and> sb = sa \<and> lookup_instance sa (toLowerCase (el_id e)) T = Some oa
                 \<and> property_key (className sa T) = name2"
    if ui: "cat = AKUiClassesRegistry"
      and m: "matchText na (listAttribute e ''ak-ui-classes'')"
             "matchText nb (listAttribute e ''ak-ui-classes'')"
      and fa: "registry_find cat s2 na = Some T" and fb: "registry_find cat s2 nb = Some T"
      and ga: "AKObjectManager_get s2 e na = Inr (oa, sa)"
      and gb: "AKObjectManager_get sa e nb = Inr (ob, sb)"
    for e oa ob sa sb na nb
  proof -
    from get_registers [OF ga] obtain c where
      c: "get_akClass s2 e na = Inr c" "lookup_instance sa (toLowerCase (el_id e)) c = Some oa"
      by blast
    from get_akClass_ui [OF m(1) c(1)] fa ui have cT: "c = T" by simp
    from get_frame [OF ga] have fr: "ui_items sa = ui_items s2" "className sa = className s2"
      by simp_all
    from get_registers [OF gb] obtain c' where c': "get_akClass sa e nb = Inr c'" by blast
    have "registry_find AKUiClassesRegistry sa nb = registry_find AKUiClassesRegistry s2 nb"
      by (rule registry_find_cong) (simp add: items_def fr)
    with get_akClass_ui [OF m(2) c'] fb ui have c'T: "c' = T" by simp
    from get_same_class_same_instance [OF ga _ gb] c(1) c' cT c'T
    have "ob = oa \<and> sb = sa" by simp
    with c(2) cT fr(2) cn2 show ?thesis by (simp add: property_key_def)
  qed
  have "\<forall>e oa ob sa sb.
          matchText name1 (listAttribute e ''ak-ui-classes'') \<and>
          matchText name2 (listAttribute e ''ak-ui-classes'') \<and>
          ((AKObjectManager_get s2 e name1 = Inr (oa, sa) \<and>
            AKObjectManager_get sa e name2 = Inr (ob, sb)) \<or>
           (AKObjectManager_get s2 e name2 = Inr (oa, sa) \<and>
            AKObjectManager_get sa e name1 = Inr (ob, sb)))
          \<longrightarrow> ob = oa \<and> sb = sa
              \<and> lookup_instance sa (toLowerCase (el_id e)) T = Some oa
              \<and> property_key (className sa T) = name2"
    if ui: "cat = AKUiClassesRegistry"
  proof (intro allI impI)
    fix e oa ob sa sb
    assume a: "matchText name1 (listAttribute e ''ak-ui-classes'') \<and>
          matchText name2 (listAttribute e ''ak-ui-classes'') \<and>
          ((AKObjectManager_get s2 e name1 = Inr (oa, sa) \<and>
            AKObjectManager_get sa e name2 = Inr (ob, sb)) \<or>
           (AKObjectManager_get s2 e name2 = Inr (oa, sa) \<and>
            AKObjectManager_get sa e name1 = Inr (ob, sb)))"
    then have m1: "matchText name1 (listAttribute e ''ak-ui-classes'')"
      and m2: "matchText name2 (listAttribute e ''ak-ui-classes'')" by simp_all
    from a consider
      (fst) "AKObjectManager_get s2 e name1 = Inr (oa, sa)" "AKObjectManager_get sa e name2 = Inr (ob, sb)"
      | (snd) "AKObjectManager_get s2 e name2 = Inr (oa, sa)" "AKObjectManager_get sa e name1 = Inr (ob, sb)"
      by blast
    then show "ob = oa \<and> sb = sa
              \<and> lookup_instance sa (toLowerCase (el_id e)) T = Some oa
              \<and> property_key (className sa T) = name2"
    proof cases
      case fst
      from shared [OF ui m1 m2 f1 f2 fst] show ?thesis .
    next
      case snd
      from shared [OF ui m2 m1 f2 f1 snd] show ?thesis .
    qed
  qed
  with cn1 cn2 f1 f2 show ?thesis by blast
qed

text \<open>
  C10, at an example: the class \<open>Panel\<close> registered as \<open>Panel\<close> and then as \<open>Board\<close>, and an
  element that declares both.
\<close>

theorem C10_two_names_one_instance_witness:
  "\<exists>s1 s2 sa.
     isNonEmptyStr ''Panel'' \<and> isNonEmptyStr ''Board''
     \<and> toLowerCase ''Panel'' \<noteq> toLowerCase ''Board''
     \<and> registry_find AKUiClassesRegistry initial_state ''Panel'' = None
     \<and> registry_find AKUiClassesRegistry initial_state ''Board'' = None
     \<and> registry_register AKUiClassesRegistry ''Panel'' Panel initial_state = Inr s1
     \<and> registry_register AKUiClassesRegistry ''Board'' Panel s1 = Inr s2
     \<and> className s1 Panel = Some ''Panel'' \<and> className s2 Panel = Some ''Board''
     \<and> matchText ''Panel'' (listAttribute (Element ''n5'' [(''ak-ui-classes'', ''Panel Board'')] None) ''ak-ui-classes'')
     \<and> matchText ''Board'' (listAttribute (Element ''n5'' [(''ak-ui-classes'', ''Panel Board'')] None) ''ak-ui-classes'')
     \<and> AKObjectManager_get s2 (Element ''n5'' [(''ak-ui-classes'', ''Panel Board'')] None) ''Panel''
           = Inr (AKObject 0 Panel (Element ''n5'' [(''ak-ui-classes'', ''Panel Board'')] None), sa)
     \<and> AKObjectManager_get sa (Element ''n5'' [(''ak-ui-classes'', ''Panel Board'')] None) ''Board''
           = Inr (AKObject 0 Panel (Element ''n5'' [(''ak-ui-classes'', ''Panel Board'')] None), sa)
     \<and> lookup_instance sa ''n5'' Panel
           = Some (AKObject 0 Panel (Element ''n5'' [(''ak-ui-classes'', ''Panel Board'')] None))"
proof -
  let ?e = "Element ''n5'' [(''ak-ui-classes'', ''Panel Board'')] None"
  let ?s1 = "initial_state\<lparr>ui_items := [''panel'' \<mapsto> Panel],
                className := (\<lambda>_. None)(Panel := Some ''Panel'')\<rparr>"
  let ?s2 = "initial_state\<lparr>ui_items := [''panel'' \<mapsto> Panel, ''board'' \<mapsto> Panel],
                className := (\<lambda>_. None)(Panel := Some ''Board'')\<rparr>"
  let ?sa = "?s2\<lparr>next_object := 1, next_controller := 2,
                registry := [''n5'' \<mapsto> \<lparr>instances = [''Board'' \<mapsto> AKObject 0 Panel ?e],
                                         controllers = [0, 1]\<rparr>]\<rparr>"
  have h1: "isNonEmptyStr ''Panel''" and h2: "isNonEmptyStr ''Board''"
    by (simp_all add: isNonEmptyStr_def)
  have h3: "toLowerCase ''Panel'' \<noteq> toLowerCase ''Board''"
    by (simp add: case_conversion_defs)
  have h4: "registry_find AKUiClassesRegistry initial_state ''Panel'' = None"
    and h5: "registry_find AKUiClassesRegistry initial_state ''Board'' = None"
    by (simp_all add: example_defs evaluation_defs)
  have h6: "registry_register AKUiClassesRegistry ''Panel'' Panel initial_state = Inr ?s1"
    by (simp add: example_defs evaluation_defs)
  have h7: "registry_register AKUiClassesRegistry ''Board'' Panel ?s1 = Inr ?s2"
    by (simp add: example_defs evaluation_defs)
  have m1: "matchText ''Panel'' (listAttribute ?e ''ak-ui-classes'')"
    and m2: "matchText ''Board'' (listAttribute ?e ''ak-ui-classes'')"
    by (simp_all add: evaluation_defs)
  have g1: "AKObjectManager_get ?s2 ?e ''Panel'' = Inr (AKObject 0 Panel ?e, ?sa)"
    by (simp add: example_defs evaluation_defs)
  obtain ob sb where g2: "AKObjectManager_get ?sa ?e ''Board'' = Inr (ob, sb)"
    by (simp add: example_defs evaluation_defs)
  have i: "toLowerCase (el_id ?e) = ''n5''"
    by (simp add: evaluation_defs)
  from C10_two_names_one_instance [OF h1 h2 h3 h4 h5 h6 h7] m1 m2 g1 g2
  have cn: "className ?s1 Panel = Some ''Panel'' \<and> className ?s2 Panel = Some ''Board''"
    and sh: "ob = AKObject 0 Panel ?e \<and> sb = ?sa
             \<and> lookup_instance ?sa (toLowerCase (el_id ?e)) Panel = Some (AKObject 0 Panel ?e)"
    by blast+
  from sh g2 i have g2': "AKObjectManager_get ?sa ?e ''Board'' = Inr (AKObject 0 Panel ?e, ?sa)"
    and l: "lookup_instance ?sa ''n5'' Panel = Some (AKObject 0 Panel ?e)"
    by simp_all
  show ?thesis
    apply (rule exI [of _ ?s1], rule exI [of _ ?s2], rule exI [of _ ?sa])
    using h1 h2 h3 h4 h5 h6 h7 cn m1 m2 g1 g2' l by (intro conjI) simp_all
qed

end
